theory Spec2Isabelle
  imports Complex_Main "HOL-Library.Sublist" "HOL-Library.Monad_Syntax" "HOL-Library.Multiset"
begin

section \<open>Python values the extraction pipeline works on\<close>

text \<open>
  A Python \<open>str\<close> is a sequence of code points. It is modelled as a \<open>string\<close>, one
  \<open>char\<close> per code point, which covers the code points U+0000 to U+00FF (Basic Latin and
  the Latin-1 Supplement); \<open>CHR 0xB2\<close> is the one-character string SUPERSCRIPT TWO.
  The built-in string methods below follow the Unicode character database on that range.

  Exceptions are values: a function that can raise returns \<open>py_error + 'a\<close>.
\<close>

datatype py_error = ValueError | IndexError | OSError | RuntimeError

text \<open>\<open>str.isspace\<close> on one character: the characters \<open>str.strip()\<close> removes.\<close>

definition py_isspace :: "char \<Rightarrow> bool" where
  "py_isspace c \<longleftrightarrow> c \<in> set [CHR 0x09, CHR 0x0A, CHR 0x0B, CHR 0x0C, CHR 0x0D,
        CHR 0x1C, CHR 0x1D, CHR 0x1E, CHR 0x1F, CHR 0x20, CHR 0x85, CHR 0xA0]"

definition py_strip :: "string \<Rightarrow> string" where
  "py_strip s = rev (dropWhile py_isspace (rev (dropWhile py_isspace s)))"

text \<open>\<open>str.lower()\<close>: the upper-case letters below U+0100 and their lower-case forms.\<close>

definition upper_chars :: "char list" where
  "upper_chars = ''ABCDEFGHIJKLMNOPQRSTUVWXYZ'' @
     [CHR 0xC0, CHR 0xC1, CHR 0xC2, CHR 0xC3, CHR 0xC4, CHR 0xC5, CHR 0xC6, CHR 0xC7,
      CHR 0xC8, CHR 0xC9, CHR 0xCA, CHR 0xCB, CHR 0xCC, CHR 0xCD, CHR 0xCE, CHR 0xCF,
      CHR 0xD0, CHR 0xD1, CHR 0xD2, CHR 0xD3, CHR 0xD4, CHR 0xD5, CHR 0xD6,
      CHR 0xD8, CHR 0xD9, CHR 0xDA, CHR 0xDB, CHR 0xDC, CHR 0xDD, CHR 0xDE]"

definition lower_chars :: "char list" where
  "lower_chars = ''abcdefghijklmnopqrstuvwxyz'' @
     [CHR 0xE0, CHR 0xE1, CHR 0xE2, CHR 0xE3, CHR 0xE4, CHR 0xE5, CHR 0xE6, CHR 0xE7,
      CHR 0xE8, CHR 0xE9, CHR 0xEA, CHR 0xEB, CHR 0xEC, CHR 0xED, CHR 0xEE, CHR 0xEF,
      CHR 0xF0, CHR 0xF1, CHR 0xF2, CHR 0xF3, CHR 0xF4, CHR 0xF5, CHR 0xF6,
      CHR 0xF8, CHR 0xF9, CHR 0xFA, CHR 0xFB, CHR 0xFC, CHR 0xFD, CHR 0xFE]"

definition lower_char :: "char \<Rightarrow> char" where
  "lower_char c = (case map_of (zip upper_chars lower_chars) c of Some d \<Rightarrow> d | None \<Rightarrow> c)"

definition py_lower :: "string \<Rightarrow> string" where
  "py_lower s = map lower_char s"

text \<open>
  \<open>str.isdigit()\<close> is true of a non-empty string whose characters all have the Unicode
  property Numeric_Type = Digit or Decimal: below U+0100 these are the ten ASCII digits and
  the superscripts U+00B2, U+00B3 and U+00B9. The decimal digits (category Nd), which are
  what \<open>int()\<close> and the regular-expression class \<open>\d\<close> accept, are the ASCII digits only.
\<close>

definition is_decimal :: "char \<Rightarrow> bool" where
  "is_decimal c \<longleftrightarrow> c \<in> set ''0123456789''"

definition isdigit_char :: "char \<Rightarrow> bool" where
  "isdigit_char c \<longleftrightarrow> is_decimal c \<or> c \<in> set [CHR 0xB2, CHR 0xB3, CHR 0xB9]"

definition py_isdigit :: "string \<Rightarrow> bool" where
  "py_isdigit s \<longleftrightarrow> s \<noteq> [] \<and> list_all isdigit_char s"

definition py_startswith :: "string \<Rightarrow> string \<Rightarrow> bool" where
  "py_startswith s p \<longleftrightarrow> take (length p) s = p"

definition digit_val :: "char \<Rightarrow> nat" where
  "digit_val c = of_char c - 48"

text \<open>The value of a run of decimal digits, most significant first.\<close>

definition decimal_value :: "string \<Rightarrow> nat" where
  "decimal_value s = foldl (\<lambda>acc c. 10 * acc + digit_val c) 0 s"

text \<open>
  \<open>int(s)\<close> in base 10: surrounding whitespace is dropped (of the characters that
  \<open>str.strip()\<close> removes, \<open>int\<close> does not take U+001C to U+001F), one sign is allowed, and
  the rest must be decimal digits, with single underscores allowed between digits. Anything
  else raises \<open>ValueError\<close>. So does a literal of more than 4300 digits, leading zeros
  counted, sign and underscores not: that is the default of \<open>sys.int_max_str_digits\<close>,
  which the program leaves as it is.
\<close>

definition int_isspace :: "char \<Rightarrow> bool" where
  "int_isspace c \<longleftrightarrow> c \<in> set [CHR 0x09, CHR 0x0A, CHR 0x0B, CHR 0x0C, CHR 0x0D,
        CHR 0x20, CHR 0x85, CHR 0xA0]"

definition int_max_str_digits :: nat where
  "int_max_str_digits = 4300"

fun digit_groups :: "string \<Rightarrow> bool" where
  "digit_groups [] = False"
| "digit_groups [c] = is_decimal c"
| "digit_groups (c # d # s) =
     (is_decimal c \<and> (if d = CHR ''_'' then digit_groups s else digit_groups (d # s)))"

definition py_int :: "string \<Rightarrow> py_error + int" where
  "py_int s =
     (let t = rev (dropWhile int_isspace (rev (dropWhile int_isspace s)));
          neg = (t \<noteq> [] \<and> hd t = CHR ''-'');
          body = (if t \<noteq> [] \<and> (hd t = CHR ''-'' \<or> hd t = CHR ''+'') then tl t else t)
      in if digit_groups body \<and> length (filter is_decimal body) \<le> int_max_str_digits
         then Inr ((if neg then - 1 else 1) * int (decimal_value (filter is_decimal body)))
         else Inl ValueError)"

subsection \<open>The number-word library\<close>

text \<open>
  \<open>w2n.word_to_num\<close> belongs to the third-party package word2number, so it is a parameter
  of the model: a function from the text to what the call does, which is to return an
  \<open>int\<close>, to return a value of another type (a \<open>float\<close>), or to raise.
\<close>

datatype w2n_outcome = Returns_int int | Returns_float | Raises py_error

type_synonym word_to_num = "string \<Rightarrow> w2n_outcome"

section \<open>Numeric-text normalizer\<close>

text \<open>
  The \<open>try\<close> block of \<open>extract_number_from_text\<close>: the library's result counts only when
  it is an \<open>int\<close> between 1 and 50000; \<open>ValueError\<close> and \<open>IndexError\<close> are swallowed, any
  other exception propagates.
\<close>

definition try_word_to_num :: "word_to_num \<Rightarrow> string \<Rightarrow> py_error + int option" where
  "try_word_to_num w2n text =
     (case w2n text of
        Returns_int num \<Rightarrow> if 1 \<le> num \<and> num \<le> 50000 then Inr (Some num) else Inr None
      | Returns_float \<Rightarrow> Inr None
      | Raises e \<Rightarrow> if e = ValueError \<or> e = IndexError then Inr None else Inl e)"

definition extract_number_from_text :: "word_to_num \<Rightarrow> string \<Rightarrow> py_error + int option" where
  "extract_number_from_text w2n text0 =
     (let text = py_lower (py_strip text0) in
      if text = ''zero'' then Inr (Some 0)
      else if py_isdigit text then
        (if py_startswith text ''0'' \<and> length text > 1 then Inr None
         else case py_int text of
                Inl e \<Rightarrow> Inl e
              | Inr num \<Rightarrow>
                  if 0 \<le> num \<and> num \<le> 50000 then Inr (Some num)
                  else try_word_to_num w2n text)
      else try_word_to_num w2n text)"

section \<open>Layout-attribute parser\<close>

text \<open>
  \<open>re.search\<close> tries the pattern at every start position from the left, the end of the
  string included, and returns the first match. Each pattern of the program is a literal
  marker followed by greedy runs, so the match at one start position is a function
  \<open>string \<Rightarrow> 'a option\<close> of the text from that position on.
\<close>

fun re_search :: "(string \<Rightarrow> 'a option) \<Rightarrow> string \<Rightarrow> 'a option" where
  "re_search m [] = m []"
| "re_search m (c # s) = (case m (c # s) of Some r \<Rightarrow> Some r | None \<Rightarrow> re_search m s)"

definition after_literal :: "string \<Rightarrow> string \<Rightarrow> string option" where
  "after_literal lit s = (if take (length lit) s = lit then Some (drop (length lit) s) else None)"

text \<open>\<open>(\d+)\<close>: the longest run of decimal digits, which must not be empty, and the rest.\<close>

definition digits1 :: "string \<Rightarrow> (string \<times> string) option" where
  "digits1 s = (if takeWhile is_decimal s = [] then None
                else Some (takeWhile is_decimal s, dropWhile is_decimal s))"

text \<open>The pattern \<^verbatim>\<open>bbox (\d+) (\d+) (\d+) (\d+)\<close> at one start position: its four groups.\<close>

definition match_bbox :: "string \<Rightarrow> (string \<times> string \<times> string \<times> string) option" where
  "match_bbox s = do {
     s0 \<leftarrow> after_literal ''bbox '' s;
     (g1, r1) \<leftarrow> digits1 s0;
     s1 \<leftarrow> after_literal '' '' r1;
     (g2, r2) \<leftarrow> digits1 s1;
     s2 \<leftarrow> after_literal '' '' r2;
     (g3, r3) \<leftarrow> digits1 s2;
     s3 \<leftarrow> after_literal '' '' r3;
     (g4, r4) \<leftarrow> digits1 s3;
     Some (g1, g2, g3, g4)
   }"

text \<open>
  The four groups go through \<open>int\<close> in their order (\<open>map(int, match.groups())\<close>, unpacked
  into four names), so the first group that \<open>int\<close> refuses raises: a run of decimal digits
  is refused when it is longer than \<open>int_max_str_digits\<close>.
\<close>

definition parse_bbox :: "string \<Rightarrow> py_error + (int \<times> int \<times> int \<times> int) option" where
  "parse_bbox title =
     (case re_search match_bbox title of
        None \<Rightarrow> Inr None
      | Some (g1, g2, g3, g4) \<Rightarrow>
          (case py_int g1 of
             Inl e \<Rightarrow> Inl e
           | Inr x0 \<Rightarrow>
               (case py_int g2 of
                  Inl e \<Rightarrow> Inl e
                | Inr y0 \<Rightarrow>
                    (case py_int g3 of
                       Inl e \<Rightarrow> Inl e
                     | Inr x1 \<Rightarrow>
                         (case py_int g4 of
                            Inl e \<Rightarrow> Inl e
                          | Inr y1 \<Rightarrow> Inr (Some (x0, y0, x1, y1)))))))"

definition match_ppageno :: "string \<Rightarrow> string option" where
  "match_ppageno s = do {
     s0 \<leftarrow> after_literal ''ppageno '' s;
     (g1, r1) \<leftarrow> digits1 s0;
     Some g1
   }"

definition parse_ppageno :: "string \<Rightarrow> py_error + int option" where
  "parse_ppageno title =
     (case re_search match_ppageno title of
        None \<Rightarrow> Inr None
      | Some g \<Rightarrow> (case py_int g of Inl e \<Rightarrow> Inl e | Inr n \<Rightarrow> Inr (Some n)))"

text \<open>
  The pattern \<^verbatim>\<open>x_wconf (\d+(?:\.\d+)?)\<close> at one start position: the integer digits and
  the fraction digits (empty when the optional part does not match).
\<close>

definition match_confidence :: "string \<Rightarrow> (string \<times> string) option" where
  "match_confidence s = do {
     s0 \<leftarrow> after_literal ''x_wconf '' s;
     (g1, r1) \<leftarrow> digits1 s0;
     Some (g1, case after_literal ''.'' r1 of
                 None \<Rightarrow> []
               | Some r2 \<Rightarrow> takeWhile is_decimal r2)
   }"

text \<open>
  \<open>parse_confidence\<close> returns \<open>float(group)\<close>. The model keeps the exact value of the
  decimal literal, a rational; the rounding of \<open>float\<close> to binary64 is accounted for where
  the value is compared, in \<open>float_le_90\<close>.
\<close>

definition parse_confidence :: "string \<Rightarrow> rat option" where
  "parse_confidence title =
     map_option (\<lambda>(g1, g2). of_nat (decimal_value g1) + of_nat (decimal_value g2) / 10 ^ length g2)
       (re_search match_confidence title)"

text \<open>
  \<open>confidence <= 90\<close> on the \<open>float\<close>. The conversion rounds to the nearest binary64 value,
  ties to even; 90 is a binary64 value with an even significand and the next one above it
  is \<open>90 + 2\<^sup>-\<^sup>4\<^sup>6\<close>, so the rounded value is at most 90 exactly when the literal is at
  most \<open>90 + 2\<^sup>-\<^sup>4\<^sup>7\<close>.
\<close>

definition float_le_90 :: "rat \<Rightarrow> bool" where
  "float_le_90 q \<longleftrightarrow> q \<le> 90 + 1 / 2 ^ 47"

text \<open>The pattern \<^verbatim>\<open>image "([^"]+)"\<close> at one start position.\<close>

definition match_image :: "string \<Rightarrow> string option" where
  "match_image s = do {
     s0 \<leftarrow> after_literal (''image '' @ [CHR 0x22]) s;
     if takeWhile (\<lambda>c. c \<noteq> CHR 0x22) s0 \<noteq> [] \<and> dropWhile (\<lambda>c. c \<noteq> CHR 0x22) s0 \<noteq> []
     then Some (takeWhile (\<lambda>c. c \<noteq> CHR 0x22) s0) else None
   }"

text \<open>\<open>str.split(sep)\<close> for a one-character separator.\<close>

fun split_on :: "char \<Rightarrow> string \<Rightarrow> string list" where
  "split_on sep [] = [[]]"
| "split_on sep (c # s) =
     (if c = sep then [] # split_on sep s
      else case split_on sep s of x # xs \<Rightarrow> (c # x) # xs | [] \<Rightarrow> [[c]])"

text \<open>
  \<open>Path(p).name\<close> on a POSIX system: the last of the components between slashes, empty
  components and \<open>.\<close> left out; the empty string when there is none.
\<close>

definition path_name :: "string \<Rightarrow> string" where
  "path_name p =
     (case filter (\<lambda>x. x \<noteq> [] \<and> x \<noteq> ''.'') (split_on (CHR ''/'') p) of
        [] \<Rightarrow> []
      | x # xs \<Rightarrow> last (x # xs))"

definition parse_image_path :: "string \<Rightarrow> string option" where
  "parse_image_path title = map_option path_name (re_search match_image title)"

section \<open>Document scanner\<close>

text \<open>
  The parsed layout document, as far as the scanner reads it: the \<open>div.ocr_page\<close> nodes in
  document order, each with its \<open>title\<close> attribute (\<open>None\<close> when absent) and its
  \<open>span.ocrx_word\<close> descendants in document order, each with its text and \<open>title\<close>.
\<close>

record ocrx_word =
  word_text :: string
  word_title :: "string option"

record ocr_page =
  page_title :: "string option"
  page_words :: "ocrx_word list"

type_synonym hocr = "ocr_page list"

text \<open>A candidate \<open>(number, x0, y0, x1, y1)\<close>.\<close>

type_synonym candidate = "int \<times> int \<times> int \<times> int \<times> int"

text \<open>
  \<open>numbers_by_image\<close> is a \<open>dict\<close>, which keeps its keys in insertion order: an association
  list with one entry per key.
\<close>

type_synonym numbers_by_image = "(string \<times> candidate list) list"

fun dict_append :: "string \<Rightarrow> candidate \<Rightarrow> numbers_by_image \<Rightarrow> numbers_by_image" where
  "dict_append k v [] = [(k, [v])]"
| "dict_append k v ((k', vs) # d) =
     (if k = k' then (k', vs @ [v]) # d else (k', vs) # dict_append k v d)"

text \<open>The scanner's state: \<open>numbers_by_image\<close> and \<open>seen_numbers\<close>.\<close>

type_synonym scan_state = "numbers_by_image \<times> int set"

text \<open>One iteration of the loop over the words of a page.\<close>

definition scan_word :: "word_to_num \<Rightarrow> string \<Rightarrow> scan_state \<Rightarrow> ocrx_word \<Rightarrow> py_error + scan_state" where
  "scan_word w2n image_name st word =
     (if word_text word = [] then Inr st
      else case extract_number_from_text w2n (word_text word) of
        Inl e \<Rightarrow> Inl e
      | Inr None \<Rightarrow> Inr st
      | Inr (Some number) \<Rightarrow>
          if number \<in> snd st then Inr st
          else case word_title word of
            None \<Rightarrow> Inr st
          | Some wtitle \<Rightarrow>
              if wtitle = [] then Inr st
              else case parse_confidence wtitle of
                None \<Rightarrow> Inr st
              | Some confidence \<Rightarrow>
                  if float_le_90 confidence then Inr st
                  else case parse_bbox wtitle of
                    Inl e \<Rightarrow> Inl e
                  | Inr None \<Rightarrow> Inr st
                  | Inr (Some (x0, y0, x1, y1)) \<Rightarrow>
                      Inr (dict_append image_name (number, x0, y0, x1, y1) (fst st),
                           insert number (snd st)))"

fun scan_words :: "word_to_num \<Rightarrow> string \<Rightarrow> ocrx_word list \<Rightarrow> scan_state \<Rightarrow> py_error + scan_state" where
  "scan_words w2n image_name [] st = Inr st"
| "scan_words w2n image_name (word # ws) st =
     (case scan_word w2n image_name st word of
        Inl e \<Rightarrow> Inl e
      | Inr st' \<Rightarrow> scan_words w2n image_name ws st')"

fun scan_pages :: "word_to_num \<Rightarrow> hocr \<Rightarrow> scan_state \<Rightarrow> py_error + scan_state" where
  "scan_pages w2n [] st = Inr st"
| "scan_pages w2n (page # ps) st =
     (case page_title page of
        None \<Rightarrow> scan_pages w2n ps st
      | Some ptitle \<Rightarrow>
          if ptitle = [] then scan_pages w2n ps st
          else case parse_image_path ptitle of
            None \<Rightarrow> scan_pages w2n ps st
          | Some image_name \<Rightarrow>
              (case scan_words w2n image_name (page_words page) st of
                 Inl e \<Rightarrow> Inl e
               | Inr st' \<Rightarrow> scan_pages w2n ps st'))"

definition extract_numbers_from_hocr :: "word_to_num \<Rightarrow> hocr \<Rightarrow> py_error + numbers_by_image" where
  "extract_numbers_from_hocr w2n html =
     (case scan_pages w2n html ([], {}) of
        Inl e \<Rightarrow> Inl e
      | Inr st \<Rightarrow> Inr (fst st))"

section \<open>Region extractor\<close>

subsection \<open>Strings and paths\<close>

text \<open>
  \<open>str(n)\<close> for an \<open>int\<close>: its decimal digits, after a minus sign when negative. (The
  digit limit applies to \<open>str\<close> as well, beyond 4300 digits; the values this program
  formats are at most 50000.)
\<close>

fun digits_of_nat :: "nat \<Rightarrow> string" where
  "digits_of_nat n =
     (if n < 10 then [''0123456789'' ! n]
      else digits_of_nat (n div 10) @ [''0123456789'' ! (n mod 10)])"

declare digits_of_nat.simps [simp del]

definition py_str :: "int \<Rightarrow> string" where
  "py_str n = (if n < 0 then CHR ''-'' # digits_of_nat (nat (- n)) else digits_of_nat (nat n))"

text \<open>
  \<open>s.replace(old, new)\<close>: every occurrence of \<open>old\<close>, found from the left without overlap,
  becomes \<open>new\<close>; an empty \<open>old\<close> matches before every character and at the end.
\<close>

function py_replace :: "string \<Rightarrow> string \<Rightarrow> string \<Rightarrow> string" where
  "py_replace old new s =
     (if old = [] then new @ concat (map (\<lambda>c. c # new) s)
      else if s = [] then []
      else if take (length old) s = old then new @ py_replace old new (drop (length old) s)
      else hd s # py_replace old new (tl s))"
  by pat_completeness auto
termination
  by (relation "measure (\<lambda>(old, new, s). length s)") auto

declare py_replace.simps [simp del]

text \<open>
  A \<open>Path\<close> is the list of its components; \<open>p / name\<close> appends one. The names joined by
  the program (the decimal value, and a file name built from the book directory's name and
  a \<open>Path.name\<close>) contain no slash.
\<close>

type_synonym path = "string list"

text \<open>\<open>str(p)\<close> of a relative path.\<close>

fun path_str :: "path \<Rightarrow> string" where
  "path_str [] = ''.''"
| "path_str [x] = x"
| "path_str (x # y # p) = x @ ''/'' @ path_str (y # p)"

text \<open>\<open>p.name\<close> of a path given by its components.\<close>

definition last_name :: "path \<Rightarrow> string" where
  "last_name p = (if p = [] then [] else last p)"

text \<open>The file name and the path of the artifact (lines 152 and 153 of the source).\<close>

definition artifact_name :: "int \<Rightarrow> string \<Rightarrow> string \<Rightarrow> string" where
  "artifact_name number book_name image_name =
     py_str number @ ''_'' @ book_name @ ''_'' @ py_replace ''.jp2'' ''.png'' image_name"

definition artifact_path :: "path \<Rightarrow> int \<Rightarrow> string \<Rightarrow> string \<Rightarrow> path" where
  "artifact_path output_dir number book_name image_name =
     (output_dir @ [py_str number]) @ [artifact_name number book_name image_name]"

subsection \<open>The file system and the console\<close>

text \<open>
  The part of the file system the extractor writes to is a map from paths to nodes, where
  the empty path is the working directory. It does not hold the raster directories, which
  the program only reads and which lie in another subtree (\<open>data/raw\<close>, the output being
  \<open>data/numbers\<close>). What the program prints is kept as a list of messages.
\<close>

datatype 'a node = Dir | File 'a

datatype message =
    Processing string
  | Warning_JP2_not_found "string list" string
  | Completed string nat nat
  | No_hOCR_file_found "string list"
  | No_JP2_directory_found "string list"
  | Found_books nat
  | Error_processing "string list" py_error
  | Total_numbers_extracted nat

record 'a world =
  disk :: "path \<rightharpoonup> 'a node"
  stdout :: "message list"

definition print :: "message \<Rightarrow> 'a world \<Rightarrow> 'a world" where
  "print m w = w\<lparr>stdout := stdout w @ [m]\<rparr>"

definition path_exists :: "'a world \<Rightarrow> path \<Rightarrow> bool" where
  "path_exists w p \<longleftrightarrow> p = [] \<or> disk w p \<noteq> None"

definition is_dir :: "'a world \<Rightarrow> path \<Rightarrow> bool" where
  "is_dir w p \<longleftrightarrow> p = [] \<or> disk w p = Some Dir"

text \<open>
  \<open>p.mkdir(parents=True, exist_ok=True)\<close>: every missing ancestor and \<open>p\<close> itself become
  directories; it fails (with a subclass of \<open>OSError\<close>) when one of them is a regular file.
\<close>

definition mkdir_parents :: "path \<Rightarrow> 'a world \<Rightarrow> py_error + 'a world" where
  "mkdir_parents p w =
     (if \<exists>q \<in> set (prefixes p). q \<noteq> [] \<and> disk w q \<noteq> None \<and> disk w q \<noteq> Some Dir then Inl OSError
      else Inr (w\<lparr>disk := (\<lambda>q. if q \<noteq> [] \<and> q \<in> set (prefixes p) then Some Dir else disk w q)\<rparr>))"

text \<open>
  \<open>p.mkdir(exist_ok=True)\<close>: nothing to do when \<open>p\<close> is a directory; it fails when \<open>p\<close> is
  a regular file or its parent is not a directory.
\<close>

definition mkdir_exist_ok :: "path \<Rightarrow> 'a world \<Rightarrow> py_error + 'a world" where
  "mkdir_exist_ok p w =
     (if is_dir w p then Inr w
      else if path_exists w p \<or> \<not> is_dir w (butlast p) then Inl OSError
      else Inr (w\<lparr>disk := (disk w)(p \<mapsto> Dir)\<rparr>))"

text \<open>Writing a regular file: it fails on a directory, and when the parent is not a directory.\<close>

definition write_file :: "path \<Rightarrow> 'a \<Rightarrow> 'a world \<Rightarrow> py_error + 'a world" where
  "write_file p content w =
     (if is_dir w p \<or> \<not> is_dir w (butlast p) then Inl OSError
      else Inr (w\<lparr>disk := (disk w)(p \<mapsto> File content)\<rparr>))"

subsection \<open>The imaging library\<close>

text \<open>
  Pillow is a third-party package, so its three operations are parameters: opening a
  raster file, cropping a box out of an image, and encoding an image as PNG. Each returns
  its result or raises. \<open>'r\<close> is the content of a raster file, \<open>'i\<close> an image in memory and
  \<open>'a\<close> the content of a PNG file.
\<close>

record ('r, 'i, 'a) pil =
  image_open :: "'r \<Rightarrow> py_error + 'i"
  image_crop :: "'i \<Rightarrow> int \<times> int \<times> int \<times> int \<Rightarrow> py_error + 'i"
  image_encode_png :: "'i \<Rightarrow> py_error + 'a"

text \<open>A raster directory: its path and the entries found under each name.\<close>

record 'r raster_dir =
  dir_path :: path
  dir_entries :: "string \<rightharpoonup> 'r"

subsection \<open>\<open>extract_and_save_numbers\<close>\<close>

text \<open>
  A function that can raise after it has written returns the outcome together with the
  world it leaves behind. The counters \<open>count\<close> and \<open>skipped\<close>, here \<open>(cnt, skipped)\<close>, are threaded through the loops.
\<close>

text \<open>The body of the inner loop, for one candidate on the opened image \<open>img\<close>.\<close>

definition save_number ::
  "('r, 'i, 'a) pil \<Rightarrow> path \<Rightarrow> string \<Rightarrow> string \<Rightarrow> 'i \<Rightarrow> candidate \<Rightarrow> nat \<times> nat \<Rightarrow> 'a world
     \<Rightarrow> (py_error + nat \<times> nat) \<times> 'a world" where
  "save_number lib output_dir book_name image_name img cand counters w =
     (case (cand, counters) of ((number, x0, y0, x1, y1), (cnt, skipped)) \<Rightarrow>
        let number_dir = output_dir @ [py_str number];
            output_path = number_dir @ [artifact_name number book_name image_name]
        in if path_exists w output_path then (Inr (cnt, skipped + 1), w)
           else case image_crop lib img (x0, y0, x1, y1) of
             Inl e \<Rightarrow> (Inl e, w)
           | Inr region \<Rightarrow>
               (case mkdir_exist_ok number_dir w of
                  Inl e \<Rightarrow> (Inl e, w)
                | Inr w1 \<Rightarrow>
                    (case image_encode_png lib region of
                       Inl e \<Rightarrow> (Inl e, w1)
                     | Inr png \<Rightarrow>
                         (case write_file output_path png w1 of
                            Inl e \<Rightarrow> (Inl e, w1)
                          | Inr w2 \<Rightarrow> (Inr (cnt + 1, skipped), w2)))))"

fun save_numbers ::
  "('r, 'i, 'a) pil \<Rightarrow> path \<Rightarrow> string \<Rightarrow> string \<Rightarrow> 'i \<Rightarrow> candidate list \<Rightarrow> nat \<times> nat \<Rightarrow> 'a world
     \<Rightarrow> (py_error + nat \<times> nat) \<times> 'a world" where
  "save_numbers lib output_dir book_name image_name img [] counters w = (Inr counters, w)"
| "save_numbers lib output_dir book_name image_name img (cand # numbers) counters w =
     (case save_number lib output_dir book_name image_name img cand counters w of
        (Inl e, w') \<Rightarrow> (Inl e, w')
      | (Inr counters', w') \<Rightarrow>
          save_numbers lib output_dir book_name image_name img numbers counters' w')"

text \<open>The outer loop, over the items of \<open>numbers_by_image\<close>.\<close>

fun save_images ::
  "('r, 'i, 'a) pil \<Rightarrow> 'r raster_dir \<Rightarrow> path \<Rightarrow> string \<Rightarrow> numbers_by_image \<Rightarrow> nat \<times> nat \<Rightarrow> 'a world
     \<Rightarrow> (py_error + nat \<times> nat) \<times> 'a world" where
  "save_images lib jp2_dir output_dir book_name [] counters w = (Inr counters, w)"
| "save_images lib jp2_dir output_dir book_name ((image_name, numbers) # items) counters w =
     (case dir_entries jp2_dir image_name of
        None \<Rightarrow>
          save_images lib jp2_dir output_dir book_name items counters
            (print (Warning_JP2_not_found (dir_path jp2_dir) image_name) w)
      | Some raster \<Rightarrow>
          (case image_open lib raster of
             Inl e \<Rightarrow> (Inl e, w)
           | Inr img \<Rightarrow>
               (case save_numbers lib output_dir book_name image_name img numbers counters w of
                  (Inl e, w') \<Rightarrow> (Inl e, w')
                | (Inr counters', w') \<Rightarrow>
                    save_images lib jp2_dir output_dir book_name items counters' w')))"

text \<open>
  \<open>hocr_file\<close> is what reading and parsing \<open>hocr_path\<close> gives: the layout document, or the
  exception \<open>read_text\<close> raises.
\<close>

definition extract_and_save_numbers ::
  "word_to_num \<Rightarrow> ('r, 'i, 'a) pil \<Rightarrow> py_error + hocr \<Rightarrow> 'r raster_dir \<Rightarrow> path \<Rightarrow> string \<Rightarrow> 'a world
     \<Rightarrow> (py_error + nat) \<times> 'a world" where
  "extract_and_save_numbers w2n lib hocr_file jp2_dir output_dir book_name w =
     (let w0 = print (Processing book_name) w in
      case mkdir_parents output_dir w0 of
        Inl e \<Rightarrow> (Inl e, w0)
      | Inr w1 \<Rightarrow>
          (case hocr_file of
             Inl e \<Rightarrow> (Inl e, w1)
           | Inr html \<Rightarrow>
               (case extract_numbers_from_hocr w2n html of
                  Inl e \<Rightarrow> (Inl e, w1)
                | Inr numbers_by_image \<Rightarrow>
                    (case save_images lib jp2_dir output_dir book_name numbers_by_image (0, 0) w1 of
                       (Inl e, w2) \<Rightarrow> (Inl e, w2)
                     | (Inr (cnt, skipped), w2) \<Rightarrow>
                         (Inr cnt, print (Completed book_name cnt skipped) w2)))))"

section \<open>Document fan-out controller\<close>

text \<open>
  A book directory as \<open>process_book\<close> sees it: its path, the matches of
  \<^verbatim>\<open>*_hocr.html\<close> in the order \<open>glob\<close> lists them (each with what reading it gives) and
  the matches of \<^verbatim>\<open>*_jp2\<close>.
\<close>

record 'r book_dir =
  book_path :: path
  hocr_files :: "(py_error + hocr) list"
  jp2_dirs :: "'r raster_dir list"

definition process_book ::
  "word_to_num \<Rightarrow> ('r, 'i, 'a) pil \<Rightarrow> 'r book_dir \<Rightarrow> path \<Rightarrow> 'a world \<Rightarrow> (py_error + nat) \<times> 'a world" where
  "process_book w2n lib book output_dir w =
     (case hocr_files book of
        [] \<Rightarrow> (Inr 0, print (No_hOCR_file_found (book_path book)) w)
      | hocr_path # _ \<Rightarrow>
          (case jp2_dirs book of
             [] \<Rightarrow> (Inr 0, print (No_JP2_directory_found (book_path book)) w)
           | jp2_dir # _ \<Rightarrow>
               extract_and_save_numbers w2n lib hocr_path jp2_dir output_dir
                 (last_name (book_path book)) w))"

text \<open>
  The pool. Every book is submitted and its future ends with the result of
  \<open>process_book\<close> or with the exception it raised. The workers share nothing but the file
  system; the model runs them one after the other in the order of \<open>book_dirs\<close>, which is
  one schedule of the pool, and \<open>as_completed\<close> yields the futures in that order.
\<close>

fun run_pool ::
  "word_to_num \<Rightarrow> ('r, 'i, 'a) pil \<Rightarrow> path \<Rightarrow> 'r book_dir list \<Rightarrow> 'a world
     \<Rightarrow> (path \<times> (py_error + nat)) list \<times> 'a world" where
  "run_pool w2n lib output_dir [] w = ([], w)"
| "run_pool w2n lib output_dir (book # books) w =
     (case process_book w2n lib book output_dir w of
        (outcome, w1) \<Rightarrow>
          (case run_pool w2n lib output_dir books w1 of
             (futures, w2) \<Rightarrow> ((book_path book, outcome) # futures, w2)))"

text \<open>The loop over \<open>as_completed(futures)\<close>, with its \<open>except Exception\<close> handler.\<close>

fun collect_results :: "(path \<times> (py_error + nat)) list \<Rightarrow> nat list \<Rightarrow> 'a world \<Rightarrow> nat list \<times> 'a world" where
  "collect_results [] results w = (results, w)"
| "collect_results ((book, Inr n) # futures) results w =
     collect_results futures (results @ [n]) w"
| "collect_results ((book, Inl e) # futures) results w =
     collect_results futures (results @ [0]) (print (Error_processing book e) w)"

definition main ::
  "word_to_num \<Rightarrow> ('r, 'i, 'a) pil \<Rightarrow> 'r book_dir list \<Rightarrow> 'a world \<Rightarrow> nat \<times> 'a world" where
  "main w2n lib book_dirs w =
     (let output_dir = [''data'', ''numbers''];
          w0 = print (Found_books (length book_dirs)) w
      in case run_pool w2n lib output_dir book_dirs w0 of
           (futures, w1) \<Rightarrow>
             (case collect_results futures [] w1 of
                (results, w2) \<Rightarrow>
                  (sum_list results, print (Total_numbers_extracted (sum_list results)) w2)))"

section \<open>The consumer's file-name convention\<close>

text \<open>
  \<open>get_image_for_number\<close> of \<open>build_book.py\<close> reads the height out of the name of the file
  it picked, with the pattern \<^verbatim>\<open>_h(\d+)\.png$\<close>, and raises \<open>ValueError\<close> when the name does
  not match. \<open>$\<close> matches at the end of the string and before a final newline.
\<close>

definition match_height :: "string \<Rightarrow> string option" where
  "match_height s = do {
     s0 \<leftarrow> after_literal ''_h'' s;
     (g1, r1) \<leftarrow> digits1 s0;
     r2 \<leftarrow> after_literal ''.png'' r1;
     if r2 = [] \<or> r2 = [CHR 0x0A] then Some g1 else None
   }"

definition height_from_name :: "string \<Rightarrow> py_error + int" where
  "height_from_name name =
     (case re_search match_height name of
        None \<Rightarrow> Inl ValueError
      | Some g \<Rightarrow> py_int g)"

section \<open>Vocabulary of the properties\<close>

text \<open>The raster file name under which the words of a page are recorded, if the page is scanned.\<close>

definition page_image :: "ocr_page \<Rightarrow> string option" where
  "page_image p =
     (case page_title p of
        None \<Rightarrow> None
      | Some t \<Rightarrow> if t = [] then None else parse_image_path t)"

text \<open>The words the scanner visits, in traversal order, each with its page's raster name.\<close>

definition doc_tokens :: "hocr \<Rightarrow> (string \<times> ocrx_word) list" where
  "doc_tokens doc =
     concat (map (\<lambda>p. case page_image p of
                         None \<Rightarrow> []
                       | Some img \<Rightarrow> map (Pair img) (page_words p)) doc)"

text \<open>
  A word qualifies when, taken alone, it passes every gate of the loop body; this is the
  candidate it then stands for.
\<close>

definition word_candidate :: "word_to_num \<Rightarrow> ocrx_word \<Rightarrow> candidate option" where
  "word_candidate w2n w =
     (if word_text w = [] then None
      else case extract_number_from_text w2n (word_text w) of
        Inr (Some n) \<Rightarrow>
          (case word_title w of
             None \<Rightarrow> None
           | Some t \<Rightarrow>
               if t = [] then None
               else case parse_confidence t of
                 None \<Rightarrow> None
               | Some conf \<Rightarrow>
                   if float_le_90 conf then None
                   else case parse_bbox t of
                     Inr (Some (x0, y0, x1, y1)) \<Rightarrow> Some (n, x0, y0, x1, y1)
                   | _ \<Rightarrow> None)
      | _ \<Rightarrow> None)"

text \<open>All candidates of a result, each with the raster name it is filed under.\<close>

fun all_entries :: "numbers_by_image \<Rightarrow> (string \<times> candidate) list" where
  "all_entries [] = []"
| "all_entries ((k, vs) # d) = map (Pair k) vs @ all_entries d"

definition entry_value :: "string \<times> candidate \<Rightarrow> int" where
  "entry_value e = fst (snd e)"

text \<open>The scanner's two loops as one loop over the visited words.\<close>

fun scan_tokens :: "word_to_num \<Rightarrow> (string \<times> ocrx_word) list \<Rightarrow> scan_state \<Rightarrow> py_error + scan_state" where
  "scan_tokens w2n [] st = Inr st"
| "scan_tokens w2n ((img, w) # ts) st =
     (case scan_word w2n img st w of
        Inl e \<Rightarrow> Inl e
      | Inr st' \<Rightarrow> scan_tokens w2n ts st')"

definition scan_inv :: "word_to_num \<Rightarrow> (string \<times> ocrx_word) list \<Rightarrow> scan_state \<Rightarrow> bool" where
  "scan_inv w2n ts st \<longleftrightarrow>
     snd st = entry_value ` set (all_entries (fst st)) \<and>
     distinct (map entry_value (all_entries (fst st))) \<and>
     (\<forall>img c. (img, c) \<in> set (all_entries (fst st)) \<longrightarrow>
        (\<exists>pre w post. ts = pre @ (img, w) # post \<and> word_candidate w2n w = Some c \<and>
           (\<forall>t\<in>set pre. \<forall>c'. word_candidate w2n (snd t) = Some c' \<longrightarrow> fst c' \<noteq> fst c))) \<and>
     (\<forall>t\<in>set ts. \<forall>c. word_candidate w2n (snd t) = Some c \<longrightarrow> fst c \<in> snd st)"

section \<open>Example data\<close>

text \<open>
  A number-word function that knows one word, a layout document of two pages in which the
  value 12 occurs on both (as a word on the first, as digits with a higher confidence on
  the second), and a superscript footnote mark as a word's text.
\<close>

definition example_w2n :: word_to_num where
  "example_w2n s = (if s = ''twelve'' then Returns_int 12 else Raises ValueError)"

definition quoted :: "string \<Rightarrow> string" where
  "quoted s = [CHR 0x22] @ s @ [CHR 0x22]"

definition example_hocr :: hocr where
  "example_hocr =
     [\<lparr>page_title = Some (''image '' @ quoted ''/scans/p1.jp2'' @ ''; ppageno 0''),
       page_words = [\<lparr>word_text = ''twelve'', word_title = Some ''bbox 10 10 50 30; x_wconf 95''\<rparr>]\<rparr>,
      \<lparr>page_title = Some (''image '' @ quoted ''/scans/p2.jp2'' @ ''; ppageno 1''),
       page_words = [\<lparr>word_text = ''12'', word_title = Some ''bbox 1 1 5 3; x_wconf 99''\<rparr>,
                     \<lparr>word_text = ''7'', word_title = Some ''bbox 2 2 6 4''\<rparr>]\<rparr>]"

text \<open>
  An imaging library that refuses an empty box, a raster directory with the first page's
  raster only, and an empty output tree.
\<close>

definition example_pil :: "(string, string, string) pil" where
  "example_pil =
     \<lparr>image_open = (\<lambda>raster. Inr raster),
      image_crop = (\<lambda>img (x0, y0, x1, y1).
         if x0 < x1 \<and> y0 < y1 then Inr (img @ '' cropped'') else Inl ValueError),
      image_encode_png = (\<lambda>img. Inr (''PNG of '' @ img))\<rparr>"

definition example_jp2_dir :: "string raster_dir" where
  "example_jp2_dir =
     \<lparr>dir_path = [''data'', ''raw'', ''book1'', ''book1_jp2''],
      dir_entries = [''p1.jp2'' \<mapsto> ''raster of page 1'']\<rparr>"

definition example_world :: "string world" where
  "example_world = \<lparr>disk = Map.empty, stdout = []\<rparr>"

definition example_book :: "string book_dir" where
  "example_book =
     \<lparr>book_path = [''data'', ''raw'', ''book1''],
      hocr_files = [Inr example_hocr, Inl OSError],
      jp2_dirs = [example_jp2_dir, \<lparr>dir_path = [''data'', ''raw'', ''book1'', ''old_jp2''], dir_entries = Map.empty\<rparr>]\<rparr>"

section \<open>Vocabulary of the extractor's properties\<close>

text \<open>
  The candidates the outer loop gets to: those filed under a raster name that the raster
  directory has. The others are dropped with a warning.
\<close>

fun handled :: "'r raster_dir \<Rightarrow> numbers_by_image \<Rightarrow> nat" where
  "handled jp2_dir [] = 0"
| "handled jp2_dir ((image_name, numbers) # items) =
     (case dir_entries jp2_dir image_name of
        None \<Rightarrow> handled jp2_dir items
      | Some raster \<Rightarrow> length numbers + handled jp2_dir items)"

fun warnings :: "'r raster_dir \<Rightarrow> numbers_by_image \<Rightarrow> message list" where
  "warnings jp2_dir [] = []"
| "warnings jp2_dir ((image_name, numbers) # items) =
     (case dir_entries jp2_dir image_name of
        None \<Rightarrow> Warning_JP2_not_found (dir_path jp2_dir) image_name # warnings jp2_dir items
      | Some raster \<Rightarrow> warnings jp2_dir items)"

text \<open>Every raster that is there opens, and the artifact of each candidate on it exists.\<close>

fun all_saved ::
  "('r, 'i, 'a) pil \<Rightarrow> 'r raster_dir \<Rightarrow> path \<Rightarrow> string \<Rightarrow> numbers_by_image \<Rightarrow> 'a world \<Rightarrow> bool" where
  "all_saved lib jp2_dir output_dir book_name [] w = True"
| "all_saved lib jp2_dir output_dir book_name ((image_name, numbers) # items) w =
     ((case dir_entries jp2_dir image_name of
         None \<Rightarrow> True
       | Some raster \<Rightarrow>
           (case image_open lib raster of Inl e \<Rightarrow> False | Inr img \<Rightarrow> True) \<and>
           list_all (\<lambda>cand. path_exists w (artifact_path output_dir (fst cand) book_name image_name))
             numbers) \<and>
      all_saved lib jp2_dir output_dir book_name items w)"

text \<open>One world extends another: what exists still exists, directories stay directories.\<close>

definition extends :: "'a world \<Rightarrow> 'a world \<Rightarrow> bool" where
  "extends w w' \<longleftrightarrow>
     (\<forall>p. path_exists w p \<longrightarrow> path_exists w' p) \<and> (\<forall>p. is_dir w p \<longrightarrow> is_dir w' p)"

text \<open>
  Three book directories: first one whose layout document has a superscript footnote mark
  among its words, then the example book, then one without layout file.
\<close>

definition footnote_hocr :: hocr where
  "footnote_hocr =
     [\<lparr>page_title = Some (''image '' @ quoted ''p1.jp2''),
       page_words = [\<lparr>word_text = [CHR 0xB2], word_title = Some ''bbox 1 1 5 3; x_wconf 99''\<rparr>]\<rparr>]"

definition example_books :: "string book_dir list" where
  "example_books =
     [\<lparr>book_path = [''data'', ''raw'', ''book3''], hocr_files = [Inr footnote_hocr],
       jp2_dirs = [example_jp2_dir]\<rparr>,
      example_book,
      \<lparr>book_path = [''data'', ''raw'', ''book2''], hocr_files = [], jp2_dirs = [example_jp2_dir]\<rparr>]"

text \<open>The counts of the futures that ended with a result.\<close>

fun created_counts :: "(path \<times> (py_error + nat)) list \<Rightarrow> nat list" where
  "created_counts [] = []"
| "created_counts ((book, Inr n) # futures) = n # created_counts futures"
| "created_counts ((book, Inl e) # futures) = created_counts futures"

text \<open>The reports of the \<open>except\<close> handler, one for each future that ended with an exception.\<close>

fun failure_reports :: "(path \<times> (py_error + nat)) list \<Rightarrow> message list" where
  "failure_reports [] = []"
| "failure_reports ((book, Inr n) # futures) = failure_reports futures"
| "failure_reports ((book, Inl e) # futures) = Error_processing book e # failure_reports futures"

text \<open>The world a run of the books leaves: where the next book starts.\<close>

fun world_after ::
  "word_to_num \<Rightarrow> ('r, 'i, 'a) pil \<Rightarrow> path \<Rightarrow> 'r book_dir list \<Rightarrow> 'a world \<Rightarrow> 'a world" where
  "world_after w2n lib output_dir [] w = w"
| "world_after w2n lib output_dir (book # books) w =
     world_after w2n lib output_dir books (snd (process_book w2n lib book output_dir w))"

text \<open>
  The text that the pattern of \<open>parse_bbox\<close> matches is the marker and four digit runs, a
  space before each.
\<close>

definition digit_run :: "string \<Rightarrow> bool" where
  "digit_run g \<longleftrightarrow> g \<noteq> [] \<and> list_all is_decimal g"

definition bbox_text :: "string \<Rightarrow> string \<Rightarrow> string \<Rightarrow> string \<Rightarrow> string" where
  "bbox_text g1 g2 g3 g4 = ''bbox '' @ g1 @ '' '' @ g2 @ '' '' @ g3 @ '' '' @ g4"

section \<open>Properties\<close>

subsection \<open>Strings\<close>

lemmas char_class_defs = py_isspace_def int_isspace_def is_decimal_def isdigit_char_def
lemmas str_defs = char_class_defs py_strip_def py_lower_def lower_char_def upper_chars_def
  lower_chars_def py_isdigit_def py_startswith_def digit_val_def decimal_value_def py_int_def
  int_max_str_digits_def
lemmas re_defs = after_literal_def digits1_def match_bbox_def parse_bbox_def
  match_confidence_def parse_confidence_def match_image_def parse_image_path_def path_name_def
  float_le_90_def

lemma decimal_not_space: "is_decimal c \<Longrightarrow> \<not> py_isspace c"
  by (auto simp: char_class_defs)

lemma py_strip_id:
  assumes "s \<noteq> []" "\<not> py_isspace (hd s)" "\<not> py_isspace (last s)"
  shows "py_strip s = s"
proof -
  from assms have "dropWhile py_isspace s = s"
    by (cases s) auto
  moreover from assms have "dropWhile py_isspace (rev s) = rev s"
    by (cases s rule: rev_cases) auto
  ultimately show ?thesis by (simp add: py_strip_def)
qed

lemma digit_groups_decimal: "s \<noteq> [] \<Longrightarrow> list_all is_decimal s \<Longrightarrow> digit_groups s"
  by (induction s rule: digit_groups.induct) (auto simp: is_decimal_def)

lemma int_space_is_space: "int_isspace c \<Longrightarrow> py_isspace c"
  by (auto simp: py_isspace_def int_isspace_def)

lemma int_strip_id:
  assumes "s \<noteq> []" "\<not> py_isspace (hd s)" "\<not> py_isspace (last s)"
  shows "rev (dropWhile int_isspace (rev (dropWhile int_isspace s))) = s"
proof -
  from assms have "dropWhile int_isspace s = s"
    by (cases s) (auto dest: int_space_is_space)
  moreover from assms have "dropWhile int_isspace (rev s) = rev s"
    by (cases s rule: rev_cases) (auto dest: int_space_is_space)
  ultimately show ?thesis by simp
qed

lemma py_int_decimal:
  assumes "s \<noteq> []" "list_all is_decimal s"
  shows "py_int s = (if length s \<le> int_max_str_digits then Inr (int (decimal_value s))
                     else Inl ValueError)"
proof -
  from assms have h: "is_decimal (hd s)" and l: "is_decimal (last s)"
    by (auto simp: list_all_iff)
  then have strip: "rev (dropWhile int_isspace (rev (dropWhile int_isspace s))) = s"
    using assms(1) by (intro int_strip_id decimal_not_space)
  from h have sign: "hd s \<noteq> CHR ''-''" "hd s \<noteq> CHR ''+''"
    by (auto simp: is_decimal_def)
  from assms(2) have "filter is_decimal s = s"
    by (simp add: list_all_iff)
  with strip sign digit_groups_decimal [OF assms] show ?thesis
    by (simp add: py_int_def)
qed

lemma py_int_decimal_nonneg:
  assumes "s \<noteq> []" "list_all is_decimal s" "py_int s = Inr n"
  shows "0 \<le> n \<and> n = int (decimal_value s) \<and> length s \<le> int_max_str_digits"
  using assms(3) py_int_decimal [OF assms(1,2)] by (auto split: if_splits)

subsection \<open>Normalizer\<close>

lemma try_word_to_num_range:
  "try_word_to_num w2n t = Inr (Some n) \<Longrightarrow> 1 \<le> n \<and> n \<le> 50000"
  by (auto simp: try_word_to_num_def split: w2n_outcome.splits if_splits)

lemma extract_number_range:
  "extract_number_from_text w2n t = Inr (Some n) \<Longrightarrow> 0 \<le> n \<and> n \<le> 50000"
  by (auto simp: extract_number_from_text_def Let_def split: if_splits sum.splits
           dest!: try_word_to_num_range)

lemma normalizer_fixed_tokens:
  "extract_number_from_text w2n ''00'' = Inr None"
  "extract_number_from_text w2n ''007'' = Inr None"
  "extract_number_from_text w2n ''0'' = Inr (Some 0)"
  "extract_number_from_text w2n ''zero'' = Inr (Some 0)"
  "extract_number_from_text w2n '' Zero '' = Inr (Some 0)"
  by (simp_all add: extract_number_from_text_def str_defs)

lemma normalizer_library_tokens:
  "w2n ''-5'' = Raises ValueError \<Longrightarrow> extract_number_from_text w2n ''-5'' = Inr None"
  "w2n ''50001'' = Returns_int 50001 \<Longrightarrow> extract_number_from_text w2n ''50001'' = Inr None"
  by (simp_all add: extract_number_from_text_def try_word_to_num_def str_defs)

lemma decimal_value_Cons:
  "decimal_value (c # s) = digit_val c * 10 ^ length s + decimal_value s"
proof -
  have "foldl (\<lambda>acc c. 10 * acc + digit_val c) a s
      = a * 10 ^ length s + foldl (\<lambda>acc c. 10 * acc + digit_val c) 0 s" for a
  proof (induction s arbitrary: a)
    case Nil
    show ?case by simp
  next
    case (Cons d s)
    have "foldl (\<lambda>acc c. 10 * acc + digit_val c) a (d # s)
        = foldl (\<lambda>acc c. 10 * acc + digit_val c) (10 * a + digit_val d) s"
      by simp
    also have "\<dots> = (10 * a + digit_val d) * 10 ^ length s
        + foldl (\<lambda>acc c. 10 * acc + digit_val c) 0 s"
      by (rule Cons.IH)
    also have "foldl (\<lambda>acc c. 10 * acc + digit_val c) 0 (d # s)
        = digit_val d * 10 ^ length s + foldl (\<lambda>acc c. 10 * acc + digit_val c) 0 s"
      using Cons.IH [of "digit_val d"] by simp
    ultimately show ?case by (simp add: algebra_simps)
  qed
  from this [of "digit_val c"] show ?thesis
    by (simp add: decimal_value_def)
qed

lemma digit_val_zero: "is_decimal c \<Longrightarrow> digit_val c = 0 \<Longrightarrow> c = CHR ''0''"
  by (auto simp: is_decimal_def digit_val_def)

lemma digit_groups_chars: "digit_groups s \<Longrightarrow> list_all (\<lambda>c. is_decimal c \<or> c = CHR ''_'') s"
  by (induction s rule: digit_groups.induct) (auto split: if_splits)

lemma isdigit_not_space: "isdigit_char c \<Longrightarrow> \<not> py_isspace c"
  by (auto simp: char_class_defs)

lemma py_int_of_isdigit:
  assumes "py_isdigit s" "py_int s = Inr n"
  shows "list_all is_decimal s \<and> n = int (decimal_value s)"
proof -
  from assms(1) have ne: "s \<noteq> []" and all: "list_all isdigit_char s"
    by (simp_all add: py_isdigit_def)
  then have ends: "isdigit_char (hd s)" "isdigit_char (last s)"
    by (auto simp: list_all_iff)
  have strip: "rev (dropWhile int_isspace (rev (dropWhile int_isspace s))) = s"
    using ne ends by (intro int_strip_id isdigit_not_space)
  have "c \<noteq> CHR ''-'' \<and> c \<noteq> CHR ''+''" if "isdigit_char c" for c
    using that by (auto simp: char_class_defs)
  with ends(1) have sign: "hd s \<noteq> CHR ''-''" "hd s \<noteq> CHR ''+''"
    by blast+
  from assms(2) have "digit_groups s"
    by (auto simp: py_int_def strip sign Let_def split: if_splits)
  have "c \<noteq> CHR ''_''" if "isdigit_char c" for c
    using that by (auto simp: char_class_defs)
  with digit_groups_chars [OF \<open>digit_groups s\<close>] all have dec: "list_all is_decimal s"
    unfolding list_all_iff by blast
  with ne py_int_decimal_nonneg [of s n] assms(2) show ?thesis by simp
qed

lemma zero_only_from_literal:
  "extract_number_from_text w2n t = Inr (Some 0) \<longleftrightarrow>
     py_lower (py_strip t) = ''0'' \<or> py_lower (py_strip t) = ''zero''"
proof
  assume "py_lower (py_strip t) = ''0'' \<or> py_lower (py_strip t) = ''zero''"
  moreover have "py_int ''0'' = Inr 0"
    by (simp add: py_int_def char_class_defs decimal_value_def digit_val_def int_max_str_digits_def)
  moreover have "py_isdigit ''0''"
    by (simp add: py_isdigit_def char_class_defs)
  ultimately show "extract_number_from_text w2n t = Inr (Some 0)"
    by (auto simp: extract_number_from_text_def py_startswith_def)
next
  let ?text = "py_lower (py_strip t)"
  assume res: "extract_number_from_text w2n t = Inr (Some 0)"
  show "?text = ''0'' \<or> ?text = ''zero''"
  proof (rule ccontr)
    assume other: "\<not> (?text = ''0'' \<or> ?text = ''zero'')"
    have no_word: "try_word_to_num w2n ?text \<noteq> Inr (Some 0)"
      using try_word_to_num_range [of w2n ?text 0] by auto
    from res other no_word have digit: "py_isdigit ?text"
      and lead: "\<not> (py_startswith ?text ''0'' \<and> length ?text > 1)"
      and int0: "py_int ?text = Inr 0"
      by (auto simp: extract_number_from_text_def Let_def split: if_splits sum.splits)
    from py_int_of_isdigit [OF digit int0] have dec: "list_all is_decimal ?text"
      and val: "decimal_value ?text = 0" by simp_all
    from digit obtain c s where shape: "?text = c # s"
      by (cases ?text) (auto simp: py_isdigit_def)
    from val dec have "c = CHR ''0''"
      by (auto simp: shape decimal_value_Cons intro: digit_val_zero)
    with lead have "s = []"
      by (cases s) (auto simp: shape py_startswith_def)
    with \<open>c = CHR ''0''\<close> shape other show False by simp
  qed
qed

text \<open>
  Claim C1 says that for every text token the normalizer returns an integer between 0 and
  50000 or no match. The token made of the one character SUPERSCRIPT TWO (U+00B2) passes
  \<open>isdigit()\<close>, so \<open>int\<close> is applied to it outside the \<open>try\<close> block and its
  \<open>ValueError\<close> leaves the function: the call returns neither an integer nor \<open>None\<close>,
  whatever the number-word library does.
\<close>

theorem superscript_two_raises:
  "extract_number_from_text w2n [CHR 0xB2] = Inl ValueError"
  by (simp add: extract_number_from_text_def str_defs)

text \<open>
  Claim C7 says that the normalizer returns 0 exactly for the tokens \<open>0\<close> and \<open>zero\<close>
  and that every other token gives a positive integer or no match. The token SUPERSCRIPT
  ONE (U+00B9) is neither \<open>0\<close> nor \<open>zero\<close> after trimming and lower-casing, and the
  call on it gives neither a positive integer nor no match: it raises \<open>ValueError\<close>.
  (Whenever the call returns, the rest of the claim holds: \<open>zero_only_from_literal\<close> and
  \<open>try_word_to_num_range\<close> above.)
\<close>

theorem superscript_one_raises:
  "extract_number_from_text w2n [CHR 0xB9] = Inl ValueError \<and>
   py_lower (py_strip [CHR 0xB9]) \<noteq> ''0'' \<and> py_lower (py_strip [CHR 0xB9]) \<noteq> ''zero''"
  by (simp add: extract_number_from_text_def str_defs)

subsection \<open>Regular expressions\<close>

lemma re_search_Some:
  "re_search m s = Some r \<Longrightarrow> \<exists>pre post. s = pre @ post \<and> m post = Some r"
proof (induction s)
  case Nil
  then show ?case by simp
next
  case (Cons c s)
  show ?case
  proof (cases "m (c # s)")
    case (Some r')
    with Cons.prems have "m (c # s) = Some r" by simp
    then show ?thesis by (intro exI [of _ "[]"] exI [of _ "c # s"]) simp
  next
    case None
    with Cons.prems have "re_search m s = Some r" by simp
    from Cons.IH [OF this] obtain pre post where "s = pre @ post" "m post = Some r" by blast
    then show ?thesis by (intro exI [of _ "c # pre"] exI [of _ post]) simp
  qed
qed

lemma after_literal_Some: "after_literal lit s = Some r \<Longrightarrow> s = lit @ r"
  by (auto simp: after_literal_def split: if_splits) (metis append_take_drop_id)

lemma digits1_Some:
  "digits1 s = Some (g, r) \<Longrightarrow>
     s = g @ r \<and> g \<noteq> [] \<and> list_all is_decimal g \<and> (r = [] \<or> \<not> is_decimal (hd r))"
  by (auto simp: digits1_def list_all_iff hd_dropWhile split: if_splits dest: set_takeWhileD)

lemma match_bbox_Some:
  assumes "match_bbox s = Some (g1, g2, g3, g4)"
  shows "\<exists>rest. s = ''bbox '' @ g1 @ '' '' @ g2 @ '' '' @ g3 @ '' '' @ g4 @ rest \<and>
           g1 \<noteq> [] \<and> list_all is_decimal g1 \<and> g2 \<noteq> [] \<and> list_all is_decimal g2 \<and>
           g3 \<noteq> [] \<and> list_all is_decimal g3 \<and> g4 \<noteq> [] \<and> list_all is_decimal g4 \<and>
           (rest = [] \<or> \<not> is_decimal (hd rest))"
proof -
  from assms obtain s0 r1 s1 r2 s2 r3 s3 r4 where
    a0: "after_literal ''bbox '' s = Some s0" and d1: "digits1 s0 = Some (g1, r1)" and
    a1: "after_literal '' '' r1 = Some s1" and d2: "digits1 s1 = Some (g2, r2)" and
    a2: "after_literal '' '' r2 = Some s2" and d3: "digits1 s2 = Some (g3, r3)" and
    a3: "after_literal '' '' r3 = Some s3" and d4: "digits1 s3 = Some (g4, r4)"
    unfolding match_bbox_def by (auto split: bind_splits)
  have "s = ''bbox '' @ g1 @ '' '' @ g2 @ '' '' @ g3 @ '' '' @ g4 @ r4"
    using after_literal_Some [OF a0] after_literal_Some [OF a1] after_literal_Some [OF a2]
      after_literal_Some [OF a3] digits1_Some [OF d1] digits1_Some [OF d2] digits1_Some [OF d3]
      digits1_Some [OF d4]
    by simp
  then show ?thesis
    using digits1_Some [OF d1] digits1_Some [OF d2] digits1_Some [OF d3] digits1_Some [OF d4]
    by blast
qed

lemma match_confidence_marker:
  "match_confidence s = Some r \<Longrightarrow> prefix ''x_wconf '' s"
  unfolding match_confidence_def
  by (auto split: bind_splits dest!: after_literal_Some)

lemma parse_confidence_needs_marker:
  assumes "\<not> sublist ''x_wconf '' t"
  shows "parse_confidence t = None"
proof (rule ccontr)
  assume "parse_confidence t \<noteq> None"
  then obtain r where "re_search match_confidence t = Some r"
    by (auto simp: parse_confidence_def)
  from re_search_Some [OF this] obtain pre post where
    t: "t = pre @ post" and m: "match_confidence post = Some r" by blast
  from match_confidence_marker [OF m] obtain rest where "post = ''x_wconf '' @ rest"
    by (auto simp: prefix_def)
  with t have "sublist ''x_wconf '' t"
    unfolding sublist_def by blast
  with assms show False by contradiction
qed

subsection \<open>Scanner\<close>

lemma scan_word_cases:
  assumes "scan_word w2n img st w = Inr st'"
  shows "(st' = st \<and> (\<forall>c. word_candidate w2n w = Some c \<longrightarrow> fst c \<in> snd st))
       \<or> (\<exists>c. word_candidate w2n w = Some c \<and> fst c \<notin> snd st
              \<and> st' = (dict_append img c (fst st), insert (fst c) (snd st)))"
  using assms unfolding scan_word_def word_candidate_def
  by (auto split: if_splits sum.splits option.splits prod.splits)

lemma mset_all_entries_append:
  "mset (all_entries (dict_append k v d)) = add_mset (k, v) (mset (all_entries d))"
  by (induction d) auto

lemma set_all_entries_append:
  "set (all_entries (dict_append k v d)) = insert (k, v) (set (all_entries d))"
proof -
  have "set_mset (mset (all_entries (dict_append k v d))) = set_mset (add_mset (k, v) (mset (all_entries d)))"
    by (simp only: mset_all_entries_append)
  then show ?thesis by simp
qed

lemma distinct_values_append:
  "distinct (map entry_value (all_entries (dict_append k v d))) \<longleftrightarrow>
     fst v \<notin> entry_value ` set (all_entries d) \<and> distinct (map entry_value (all_entries d))"
proof -
  have "mset (map entry_value (all_entries (dict_append k v d)))
        = mset (map entry_value ((k, v) # all_entries d))"
    using arg_cong [OF mset_all_entries_append [of k v d], of "image_mset entry_value"]
    by simp
  then have "distinct (map entry_value (all_entries (dict_append k v d)))
        \<longleftrightarrow> distinct (map entry_value ((k, v) # all_entries d))"
    by (rule mset_eq_imp_distinct_iff)
  then show ?thesis by (auto simp: entry_value_def)
qed

lemma scan_words_tokens:
  "scan_words w2n img ws st = scan_tokens w2n (map (Pair img) ws) st"
  by (induction ws arbitrary: st) (auto split: sum.splits)

lemma scan_tokens_append:
  "scan_tokens w2n (ts @ us) st =
     (case scan_tokens w2n ts st of Inl e \<Rightarrow> Inl e | Inr st' \<Rightarrow> scan_tokens w2n us st')"
  by (induction ts arbitrary: st) (auto split: sum.splits)

lemma scan_pages_tokens:
  "scan_pages w2n doc st = scan_tokens w2n (doc_tokens doc) st"
proof (induction doc arbitrary: st)
  case Nil
  show ?case by (simp add: doc_tokens_def)
next
  case (Cons p ps)
  have tok: "doc_tokens (p # ps) =
      (case page_image p of None \<Rightarrow> [] | Some img \<Rightarrow> map (Pair img) (page_words p)) @ doc_tokens ps"
    by (simp add: doc_tokens_def)
  show ?case
    unfolding tok
    by (cases "page_image p")
       (auto simp: page_image_def scan_tokens_append scan_words_tokens Cons.IH
             split: option.splits if_splits sum.splits)
qed


lemma scan_inv_empty: "scan_inv w2n [] ([], {})"
  by (simp add: scan_inv_def)

lemma scan_inv_step:
  assumes inv: "scan_inv w2n ts st" and step: "scan_word w2n img st w = Inr st'"
  shows "scan_inv w2n (ts @ [(img, w)]) st'"
proof -
  from inv have seen: "snd st = entry_value ` set (all_entries (fst st))"
    and dist: "distinct (map entry_value (all_entries (fst st)))"
    and prov: "\<And>i c. (i, c) \<in> set (all_entries (fst st)) \<Longrightarrow>
        \<exists>pre w post. ts = pre @ (i, w) # post \<and> word_candidate w2n w = Some c \<and>
           (\<forall>t\<in>set pre. \<forall>c'. word_candidate w2n (snd t) = Some c' \<longrightarrow> fst c' \<noteq> fst c)"
    and compl: "\<And>t c. t \<in> set ts \<Longrightarrow> word_candidate w2n (snd t) = Some c \<Longrightarrow> fst c \<in> snd st"
    unfolding scan_inv_def by blast+
  have old: "\<exists>pre w' post. ts @ [(img, w)] = pre @ (i, w') # post \<and> word_candidate w2n w' = Some c \<and>
           (\<forall>t\<in>set pre. \<forall>c'. word_candidate w2n (snd t) = Some c' \<longrightarrow> fst c' \<noteq> fst c)"
    if "(i, c) \<in> set (all_entries (fst st))" for i c
  proof -
    from prov [OF that] obtain pre w' post where
      "ts = pre @ (i, w') # post" "word_candidate w2n w' = Some c"
      "\<forall>t\<in>set pre. \<forall>c'. word_candidate w2n (snd t) = Some c' \<longrightarrow> fst c' \<noteq> fst c"
      by blast
    then have "ts @ [(img, w)] = pre @ (i, w') # (post @ [(img, w)])" by simp
    with \<open>word_candidate w2n w' = Some c\<close>
      \<open>\<forall>t\<in>set pre. \<forall>c'. word_candidate w2n (snd t) = Some c' \<longrightarrow> fst c' \<noteq> fst c\<close>
    show ?thesis by blast
  qed
  from scan_word_cases [OF step] show ?thesis
  proof (elim disjE conjE exE)
    assume same: "st' = st"
      and cov: "\<forall>c. word_candidate w2n w = Some c \<longrightarrow> fst c \<in> snd st"
    show ?thesis
      unfolding scan_inv_def same
      using seen dist old compl cov by auto
  next
    fix c
    assume cand: "word_candidate w2n w = Some c" and fresh: "fst c \<notin> snd st"
      and st': "st' = (dict_append img c (fst st), insert (fst c) (snd st))"
    have new: "\<exists>pre w' post. ts @ [(img, w)] = pre @ (img, w') # post \<and> word_candidate w2n w' = Some c \<and>
           (\<forall>t\<in>set pre. \<forall>c'. word_candidate w2n (snd t) = Some c' \<longrightarrow> fst c' \<noteq> fst c)"
    proof (intro exI conjI)
      show "ts @ [(img, w)] = ts @ (img, w) # []" by simp
      show "word_candidate w2n w = Some c" by (rule cand)
      show "\<forall>t\<in>set ts. \<forall>c'. word_candidate w2n (snd t) = Some c' \<longrightarrow> fst c' \<noteq> fst c"
        using compl fresh by metis
    qed
    have c1: "snd st' = entry_value ` set (all_entries (fst st'))"
      by (simp add: st' set_all_entries_append seen entry_value_def)
    have c2: "distinct (map entry_value (all_entries (fst st')))"
      using dist fresh seen by (simp add: st' distinct_values_append)
    have c3: "\<forall>i c'. (i, c') \<in> set (all_entries (fst st')) \<longrightarrow>
        (\<exists>pre w' post. ts @ [(img, w)] = pre @ (i, w') # post \<and> word_candidate w2n w' = Some c' \<and>
           (\<forall>t\<in>set pre. \<forall>c''. word_candidate w2n (snd t) = Some c'' \<longrightarrow> fst c'' \<noteq> fst c'))"
      using old new by (auto simp: st' set_all_entries_append)
    have c4: "\<forall>t\<in>set (ts @ [(img, w)]). \<forall>c'. word_candidate w2n (snd t) = Some c' \<longrightarrow> fst c' \<in> snd st'"
      using compl cand by (auto simp: st')
    show ?thesis
      unfolding scan_inv_def using c1 c2 c3 c4 by blast
  qed
qed

lemma scan_tokens_inv:
  "scan_tokens w2n ts ([], {}) = Inr st \<Longrightarrow> scan_inv w2n ts st"
proof (induction ts arbitrary: st rule: rev_induct)
  case Nil
  then show ?case using scan_inv_empty by auto
next
  case (snoc t ts)
  obtain img w where t: "t = (img, w)" by (cases t)
  from snoc.prems obtain st0 where
    a: "scan_tokens w2n ts ([], {}) = Inr st0" and b: "scan_word w2n img st0 w = Inr st"
    by (auto simp: scan_tokens_append t split: sum.splits)
  from scan_inv_step [OF snoc.IH [OF a] b] show ?case by (simp add: t)
qed

lemma scan_word_returns:
  assumes "word_text w = [] \<or>
      (\<exists>r. extract_number_from_text w2n (word_text w) = Inr r) \<and>
      (case word_title w of None \<Rightarrow> True | Some wt \<Rightarrow> \<exists>b. parse_bbox wt = Inr b)"
  shows "\<exists>st'. scan_word w2n img st w = Inr st'"
  using assms unfolding scan_word_def
  by (auto split: option.splits prod.splits sum.splits)

lemma scan_tokens_returns:
  assumes "list_all (\<lambda>t. word_text (snd t) = [] \<or>
             (\<exists>r. extract_number_from_text w2n (word_text (snd t)) = Inr r) \<and>
             (case word_title (snd t) of None \<Rightarrow> True | Some wt \<Rightarrow> \<exists>b. parse_bbox wt = Inr b)) ts"
  shows "\<exists>st'. scan_tokens w2n ts st = Inr st'"
  using assms
proof (induction ts arbitrary: st)
  case Nil
  show ?case by simp
next
  case (Cons t ts)
  obtain img w where t: "t = (img, w)" by (cases t)
  from Cons.prems have "word_text w = [] \<or>
      (\<exists>r. extract_number_from_text w2n (word_text w) = Inr r) \<and>
      (case word_title w of None \<Rightarrow> True | Some wt \<Rightarrow> \<exists>b. parse_bbox wt = Inr b)"
    by (simp add: t)
  from scan_word_returns [OF this] obtain st1 where "scan_word w2n img st w = Inr st1" by blast
  moreover from Cons.prems Cons.IH [of st1] obtain st2 where "scan_tokens w2n ts st1 = Inr st2"
    by auto
  ultimately show ?case by (simp add: t)
qed

lemma scanner_returns:
  assumes "list_all (\<lambda>t. word_text (snd t) = [] \<or>
             (\<exists>r. extract_number_from_text w2n (word_text (snd t)) = Inr r) \<and>
             (case word_title (snd t) of None \<Rightarrow> True | Some wt \<Rightarrow> \<exists>b. parse_bbox wt = Inr b))
           (doc_tokens doc)"
  shows "\<exists>d. extract_numbers_from_hocr w2n doc = Inr d"
  using scan_tokens_returns [OF assms, of "([], {})"]
  by (auto simp: extract_numbers_from_hocr_def scan_pages_tokens)

lemmas scan_defs = extract_numbers_from_hocr_def scan_word_def extract_number_from_text_def
  try_word_to_num_def example_hocr_def example_w2n_def quoted_def page_image_def doc_tokens_def
  word_candidate_def entry_value_def

text \<open>
  Claim C2. Whenever the scanner returns a result for a layout document: no two candidates
  of the result, under whatever raster name they are filed, have the same value; every
  candidate comes from a visited word that qualifies and that no qualifying word of the
  same value precedes in traversal order, over all pages; and every value that some
  qualifying word has is in the result. So the first qualifying occurrence is the one
  kept, and a later word of the same value is dropped whatever its confidence.
\<close>

theorem first_qualifying_occurrence_wins:
  assumes "extract_numbers_from_hocr w2n doc = Inr d"
  shows "distinct (map entry_value (all_entries d)) \<and>
         (\<forall>img c. (img, c) \<in> set (all_entries d) \<longrightarrow>
            (\<exists>pre w post. doc_tokens doc = pre @ (img, w) # post \<and>
               word_candidate w2n w = Some c \<and>
               (\<forall>t\<in>set pre. \<forall>c'. word_candidate w2n (snd t) = Some c' \<longrightarrow> fst c' \<noteq> fst c))) \<and>
         (\<forall>t\<in>set (doc_tokens doc). \<forall>c. word_candidate w2n (snd t) = Some c \<longrightarrow>
            fst c \<in> entry_value ` set (all_entries d))"
proof -
  from assms obtain st where run: "scan_pages w2n doc ([], {}) = Inr st" and d: "d = fst st"
    by (auto simp: extract_numbers_from_hocr_def split: sum.splits)
  from run have "scan_tokens w2n (doc_tokens doc) ([], {}) = Inr st"
    by (simp add: scan_pages_tokens)
  then have "scan_inv w2n (doc_tokens doc) st"
    by (rule scan_tokens_inv)
  then have seen: "snd st = entry_value ` set (all_entries (fst st))"
    and dist: "distinct (map entry_value (all_entries (fst st)))"
    and first: "\<forall>img c. (img, c) \<in> set (all_entries (fst st)) \<longrightarrow>
        (\<exists>pre w post. doc_tokens doc = pre @ (img, w) # post \<and> word_candidate w2n w = Some c \<and>
           (\<forall>t\<in>set pre. \<forall>c'. word_candidate w2n (snd t) = Some c' \<longrightarrow> fst c' \<noteq> fst c))"
    and compl: "\<forall>t\<in>set (doc_tokens doc). \<forall>c. word_candidate w2n (snd t) = Some c \<longrightarrow> fst c \<in> snd st"
    unfolding scan_inv_def by blast+
  from dist first compl [unfolded seen] show ?thesis
    unfolding d by (intro conjI)
qed

lemma example_scan:
  "extract_numbers_from_hocr example_w2n example_hocr = Inr [(''p1.jp2'', [(12, 10, 10, 50, 30)])]"
  by (simp add: scan_defs re_defs str_defs)

lemma example_tokens:
  "doc_tokens example_hocr =
     [(''p1.jp2'', \<lparr>word_text = ''twelve'', word_title = Some ''bbox 10 10 50 30; x_wconf 95''\<rparr>),
      (''p2.jp2'', \<lparr>word_text = ''12'', word_title = Some ''bbox 1 1 5 3; x_wconf 99''\<rparr>),
      (''p2.jp2'', \<lparr>word_text = ''7'', word_title = Some ''bbox 2 2 6 4''\<rparr>)]"
  by (simp add: scan_defs re_defs str_defs)

lemma example_candidates:
  "word_candidate example_w2n \<lparr>word_text = ''twelve'', word_title = Some ''bbox 10 10 50 30; x_wconf 95''\<rparr>
     = Some (12, 10, 10, 50, 30)"
  "word_candidate example_w2n \<lparr>word_text = ''12'', word_title = Some ''bbox 1 1 5 3; x_wconf 99''\<rparr>
     = Some (12, 1, 1, 5, 3)"
  "word_candidate example_w2n \<lparr>word_text = ''7'', word_title = Some ''bbox 2 2 6 4''\<rparr> = None"
  by (simp_all add: scan_defs re_defs str_defs)

theorem first_qualifying_occurrence_wins_witness:
  "extract_numbers_from_hocr example_w2n example_hocr = Inr [(''p1.jp2'', [(12, 10, 10, 50, 30)])] \<and>
   word_candidate example_w2n (snd (doc_tokens example_hocr ! 1)) = Some (12, 1, 1, 5, 3) \<and>
   distinct (map entry_value (all_entries [(''p1.jp2'', [(12, 10, 10, 50, 30)])])) \<and>
   (\<exists>pre w post. doc_tokens example_hocr = pre @ (''p1.jp2'', w) # post \<and>
      word_candidate example_w2n w = Some (12, 10, 10, 50, 30) \<and>
      (\<forall>t\<in>set pre. \<forall>c'. word_candidate example_w2n (snd t) = Some c' \<longrightarrow> fst c' \<noteq> 12))"
proof -
  have run: "extract_numbers_from_hocr example_w2n example_hocr = Inr [(''p1.jp2'', [(12, 10, 10, 50, 30)])]"
    by (rule example_scan)
  have later: "word_candidate example_w2n (snd (doc_tokens example_hocr ! 1)) = Some (12, 1, 1, 5, 3)"
    by (simp add: example_tokens example_candidates)
  from first_qualifying_occurrence_wins [OF run] run later show ?thesis
    by simp
qed

lemma word_candidate_Some:
  assumes "word_candidate w2n w = Some (n, x0, y0, x1, y1)"
  shows "\<exists>wt conf. extract_number_from_text w2n (word_text w) = Inr (Some n) \<and>
           word_title w = Some wt \<and> parse_confidence wt = Some conf \<and> 90 < conf \<and>
           parse_bbox wt = Inr (Some (x0, y0, x1, y1))"
proof -
  have gt: "90 < conf" if "\<not> float_le_90 conf" for conf
  proof -
    have "(90::rat) \<le> 90 + 1 / 2 ^ 47" by simp
    with that show ?thesis unfolding float_le_90_def by linarith
  qed
  from assms show ?thesis
    unfolding word_candidate_def
    by (auto split: if_splits sum.splits option.splits dest: gt)
qed

lemma doc_tokens_page:
  assumes "(img, w) \<in> set (doc_tokens doc)"
  shows "\<exists>p pt. p \<in> set doc \<and> w \<in> set (page_words p) \<and> page_title p = Some pt \<and>
           parse_image_path pt = Some img"
proof -
  from assms obtain p where p: "p \<in> set doc"
    and mem: "(img, w) \<in> set (case page_image p of None \<Rightarrow> [] | Some i \<Rightarrow> map (Pair i) (page_words p))"
    unfolding doc_tokens_def by auto
  from mem have img: "page_image p = Some img" and w: "w \<in> set (page_words p)"
    by (auto split: option.splits)
  from img obtain pt where "page_title p = Some pt" "parse_image_path pt = Some img"
    unfolding page_image_def by (auto split: option.splits if_splits)
  with p w show ?thesis by blast
qed

lemma scan_word_without_confidence:
  assumes "case word_title w of None \<Rightarrow> True | Some wt \<Rightarrow> parse_confidence wt = None"
    and "scan_word w2n img st w = Inr st'"
  shows "st' = st"
  using assms unfolding scan_word_def
  by (auto split: if_splits sum.splits option.splits)

text \<open>
  Claim C3. Whenever the scanner returns a result, each of its candidates, filed under a
  raster name, comes from a word of a page of the document such that the page's title
  resolves to that raster name, the word's text normalizes to the candidate's value, and
  the word's title gives a confidence, which is greater than 90, and the candidate's box.
  A title without the marker \<open>x_wconf\<close> gives no confidence, and a word whose title gives
  none (or that has no title) leaves the scanner's state as it was: it adds no candidate.
\<close>

theorem candidate_needs_confidence_geometry_and_raster:
  assumes "extract_numbers_from_hocr w2n doc = Inr d"
  shows "(\<forall>img n x0 y0 x1 y1. (img, n, x0, y0, x1, y1) \<in> set (all_entries d) \<longrightarrow>
            (\<exists>p w pt wt conf. p \<in> set doc \<and> w \<in> set (page_words p) \<and>
               page_title p = Some pt \<and> parse_image_path pt = Some img \<and>
               extract_number_from_text w2n (word_text w) = Inr (Some n) \<and>
               word_title w = Some wt \<and> parse_confidence wt = Some conf \<and> 90 < conf \<and>
               parse_bbox wt = Inr (Some (x0, y0, x1, y1)))) \<and>
         (\<forall>wt. \<not> sublist ''x_wconf '' wt \<longrightarrow> parse_confidence wt = None) \<and>
         (\<forall>img st w st'.
            (case word_title w of None \<Rightarrow> True | Some wt \<Rightarrow> parse_confidence wt = None) \<longrightarrow>
            scan_word w2n img st w = Inr st' \<longrightarrow> st' = st)"
proof (intro conjI allI impI)
  fix img n x0 y0 x1 y1
  assume mem: "(img, n, x0, y0, x1, y1) \<in> set (all_entries d)"
  from assms obtain st where run: "scan_pages w2n doc ([], {}) = Inr st" and d: "d = fst st"
    by (auto simp: extract_numbers_from_hocr_def split: sum.splits)
  from run have "scan_inv w2n (doc_tokens doc) st"
    by (simp add: scan_pages_tokens scan_tokens_inv)
  with mem d obtain pre w post where
    tok: "doc_tokens doc = pre @ (img, w) # post" and
    cand: "word_candidate w2n w = Some (n, x0, y0, x1, y1)"
    unfolding scan_inv_def by blast
  from tok have "(img, w) \<in> set (doc_tokens doc)" by simp
  from doc_tokens_page [OF this] word_candidate_Some [OF cand]
  show "\<exists>p w pt wt conf. p \<in> set doc \<and> w \<in> set (page_words p) \<and>
               page_title p = Some pt \<and> parse_image_path pt = Some img \<and>
               extract_number_from_text w2n (word_text w) = Inr (Some n) \<and>
               word_title w = Some wt \<and> parse_confidence wt = Some conf \<and> 90 < conf \<and>
               parse_bbox wt = Inr (Some (x0, y0, x1, y1))"
    by blast
next
  fix wt :: string
  assume "\<not> sublist ''x_wconf '' wt"
  then show "parse_confidence wt = None" by (rule parse_confidence_needs_marker)
next
  fix img st w st'
  assume "case word_title w of None \<Rightarrow> True | Some wt \<Rightarrow> parse_confidence wt = None"
    and "scan_word w2n img st w = Inr st'"
  then show "st' = st" by (rule scan_word_without_confidence)
qed

lemma no_marker_example: "\<not> sublist ''x_wconf '' ''bbox 2 2 6 4''"
  by (simp add: sublist_Cons_right prefix_Cons)

theorem candidate_needs_confidence_geometry_and_raster_witness:
  "extract_numbers_from_hocr example_w2n example_hocr = Inr [(''p1.jp2'', [(12, 10, 10, 50, 30)])] \<and>
   (\<exists>p w pt wt conf. p \<in> set example_hocr \<and> w \<in> set (page_words p) \<and>
      page_title p = Some pt \<and> parse_image_path pt = Some ''p1.jp2'' \<and>
      extract_number_from_text example_w2n (word_text w) = Inr (Some 12) \<and>
      word_title w = Some wt \<and> parse_confidence wt = Some conf \<and> 90 < conf \<and>
      parse_bbox wt = Inr (Some (10, 10, 50, 30))) \<and>
   \<not> sublist ''x_wconf '' ''bbox 2 2 6 4'' \<and>
   parse_confidence ''bbox 2 2 6 4'' = None \<and>
   scan_word example_w2n ''p2.jp2'' ([], {}) \<lparr>word_text = ''7'', word_title = Some ''bbox 2 2 6 4''\<rparr>
     = Inr ([], {})"
proof -
  have run: "extract_numbers_from_hocr example_w2n example_hocr = Inr [(''p1.jp2'', [(12, 10, 10, 50, 30)])]"
    by (rule example_scan)
  note inst = candidate_needs_confidence_geometry_and_raster [OF run]
  have mem: "(''p1.jp2'', 12, 10, 10, 50, 30) \<in> set (all_entries [(''p1.jp2'', [(12, 10, 10, 50, 30)])])"
    by simp
  from inst mem have a: "\<exists>p w pt wt conf. p \<in> set example_hocr \<and> w \<in> set (page_words p) \<and>
      page_title p = Some pt \<and> parse_image_path pt = Some ''p1.jp2'' \<and>
      extract_number_from_text example_w2n (word_text w) = Inr (Some 12) \<and>
      word_title w = Some wt \<and> parse_confidence wt = Some conf \<and> 90 < conf \<and>
      parse_bbox wt = Inr (Some (10, 10, 50, 30))"
    by blast
  from inst no_marker_example have b: "parse_confidence ''bbox 2 2 6 4'' = None"
    by blast
  have c: "scan_word example_w2n ''p2.jp2'' ([], {}) \<lparr>word_text = ''7'', word_title = Some ''bbox 2 2 6 4''\<rparr>
     = Inr ([], {})"
    by (simp add: scan_defs re_defs str_defs)
  from run a no_marker_example b c show ?thesis by (intro conjI)
qed

subsection \<open>Bounding boxes\<close>

lemma re_search_hit: "m s = Some r \<Longrightarrow> re_search m s = Some r"
  by (cases s) simp_all

lemma re_search_None: "re_search m s = None \<Longrightarrow> s = pre @ post \<Longrightarrow> m post = None"
proof (induction s arbitrary: pre)
  case Nil
  then show ?case by simp
next
  case (Cons c s)
  from Cons.prems(1) have here: "m (c # s) = None" and rest: "re_search m s = None"
    by (auto split: option.splits)
  show ?case
  proof (cases pre)
    case Nil
    with Cons.prems(2) here show ?thesis by simp
  next
    case (Cons d pre')
    with Cons.prems(2) have "s = pre' @ post" by simp
    with rest show ?thesis by (rule Cons.IH)
  qed
qed

lemma re_search_leftmost:
  "re_search m s = Some r \<Longrightarrow>
     \<exists>pre post. s = pre @ post \<and> m post = Some r \<and>
       (\<forall>pre' post'. s = pre' @ post' \<and> length pre' < length pre \<longrightarrow> m post' = None)"
proof (induction s)
  case Nil
  then have here: "m [] = Some r" by simp
  show ?case
  proof (rule exI [of _ "[]"], rule exI [of _ "[]"], intro conjI allI impI)
    show "[] = [] @ ([] :: string)" by simp
    show "m [] = Some r" by (rule here)
    fix pre' post' :: string
    assume "[] = pre' @ post' \<and> length pre' < length ([] :: string)"
    then show "m post' = None" by simp
  qed
next
  case (Cons c s)
  show ?case
  proof (cases "m (c # s)")
    case (Some r')
    with Cons.prems have here: "m (c # s) = Some r" by simp
    show ?thesis
    proof (rule exI [of _ "[]"], rule exI [of _ "c # s"], intro conjI allI impI)
      show "c # s = [] @ c # s" by simp
      show "m (c # s) = Some r" by (rule here)
      fix pre' post' :: string
      assume "c # s = pre' @ post' \<and> length pre' < length ([] :: string)"
      then show "m post' = None" by simp
    qed
  next
    case None
    with Cons.prems have "re_search m s = Some r" by simp
    from Cons.IH [OF this] obtain pre post where
      s: "s = pre @ post" and m: "m post = Some r" and
      left: "\<And>pre' post'. s = pre' @ post' \<Longrightarrow> length pre' < length pre \<Longrightarrow> m post' = None"
      by blast
    show ?thesis
    proof (rule exI [of _ "c # pre"], rule exI [of _ post], intro conjI allI impI)
      show "c # s = (c # pre) @ post" using s by simp
      show "m post = Some r" by (rule m)
      fix pre' post' :: string
      assume a: "c # s = pre' @ post' \<and> length pre' < length (c # pre)"
      show "m post' = None"
      proof (cases pre')
        case Nil
        with a None show ?thesis by simp
      next
        case (Cons d pre'')
        with a have "s = pre'' @ post'" "length pre'' < length pre" by simp_all
        then show ?thesis by (rule left)
      qed
    qed
  qed
qed

lemma digits1_run_space:
  assumes "digit_run g"
  shows "digits1 (g @ CHR '' '' # rest) = Some (g, CHR '' '' # rest)"
proof -
  from assms have all: "\<And>x. x \<in> set g \<Longrightarrow> is_decimal x" and ne: "g \<noteq> []"
    by (auto simp: digit_run_def list_all_iff)
  have sp: "\<not> is_decimal (CHR '' '')" by (simp add: is_decimal_def)
  from all sp have "takeWhile is_decimal (g @ CHR '' '' # rest) = g"
    by (simp add: takeWhile_append2)
  moreover from all sp have "dropWhile is_decimal (g @ CHR '' '' # rest) = CHR '' '' # rest"
    by (simp add: dropWhile_append2)
  ultimately show ?thesis using ne by (simp add: digits1_def)
qed

lemma digits1_run_last:
  assumes "digit_run g"
  shows "digits1 (g @ post) = Some (g @ takeWhile is_decimal post, dropWhile is_decimal post)"
proof -
  from assms have all: "\<And>x. x \<in> set g \<Longrightarrow> is_decimal x" and ne: "g \<noteq> []"
    by (auto simp: digit_run_def list_all_iff)
  from all have "takeWhile is_decimal (g @ post) = g @ takeWhile is_decimal post"
    by (simp add: takeWhile_append2)
  moreover from all have "dropWhile is_decimal (g @ post) = dropWhile is_decimal post"
    by (simp add: dropWhile_append2)
  ultimately show ?thesis using ne by (simp add: digits1_def)
qed

lemma match_bbox_text:
  assumes "digit_run g1" "digit_run g2" "digit_run g3" "digit_run g4"
  shows "match_bbox (bbox_text g1 g2 g3 g4 @ post)
           = Some (g1, g2, g3, g4 @ takeWhile is_decimal post)"
  unfolding match_bbox_def bbox_text_def
  by (simp add: after_literal_def digits1_run_space [OF assms(1)] digits1_run_space [OF assms(2)]
        digits1_run_space [OF assms(3)] digits1_run_last [OF assms(4)])

lemma match_bbox_runs:
  assumes "match_bbox s = Some (g1, g2, g3, g4)"
  shows "\<exists>rest. s = bbox_text g1 g2 g3 g4 @ rest \<and>
           digit_run g1 \<and> digit_run g2 \<and> digit_run g3 \<and> digit_run g4 \<and>
           (rest = [] \<or> \<not> is_decimal (hd rest))"
  using match_bbox_Some [OF assms] by (auto simp: bbox_text_def digit_run_def)

lemma parse_bbox_cases:
  "(re_search match_bbox s = None \<and> parse_bbox s = Inr None) \<or>
   (\<exists>g1 g2 g3 g4. re_search match_bbox s = Some (g1, g2, g3, g4) \<and>
      ((\<exists>e. parse_bbox s = Inl e) \<or>
       (\<exists>x0 y0 x1 y1. parse_bbox s = Inr (Some (x0, y0, x1, y1)) \<and>
          py_int g1 = Inr x0 \<and> py_int g2 = Inr y0 \<and> py_int g3 = Inr x1 \<and> py_int g4 = Inr y1)))"
  by (auto simp: parse_bbox_def split: option.splits sum.splits)

text \<open>
  A run of 4301 digits after the marker: the pattern matches and \<open>int\<close> raises, so the
  call neither returns a box nor \<open>None\<close>.
\<close>

lemma parse_bbox_long_run_raises:
  "parse_bbox (bbox_text (replicate 4301 (CHR ''1'')) ''2'' ''3'' ''4'') = Inl ValueError"
proof -
  let ?g = "replicate 4301 (CHR ''1'')"
  have runs: "digit_run ?g" "digit_run ''2''" "digit_run ''3''" "digit_run ''4''"
    by (simp_all add: digit_run_def is_decimal_def list_all_iff)
  from match_bbox_text [OF runs, of "[]"]
  have "re_search match_bbox (bbox_text ?g ''2'' ''3'' ''4'') = Some (?g, ''2'', ''3'', ''4'')"
    by (intro re_search_hit) simp
  moreover have "py_int ?g = Inl ValueError"
    using py_int_decimal [of ?g] runs(1)
    by (simp add: digit_run_def int_max_str_digits_def)
  ultimately show ?thesis by (simp add: parse_bbox_def)
qed

text \<open>
  Claim C10 says that a marker followed by a negative or non-numeric coordinate gives
  \<open>None\<close>, never a partially parsed box. The pattern is not anchored: a fourth coordinate
  \<open>4x\<close> or \<open>4.5\<close> gives the box with its leading digits, and a well-formed marker later in
  the string is taken when the first one has a negative coordinate.
\<close>

theorem parse_bbox_takes_digit_prefix:
  "parse_bbox ''bbox 1 2 3 4x'' = Inr (Some (1, 2, 3, 4)) \<and>
   parse_bbox ''bbox 1 2 3 4.5'' = Inr (Some (1, 2, 3, 4)) \<and>
   parse_bbox ''bbox -1 2 3 4 bbox 5 6 7 8'' = Inr (Some (5, 6, 7, 8))"
  by (simp add: re_defs str_defs)

text \<open>
  Claim C10, amended. When \<open>parse_bbox\<close> returns a box, its four integers are not negative
  and are the values of four non-empty runs of decimal digits that follow the marker
  \<open>bbox\<close>, one space before each, at the leftmost place of the string where the marker is
  followed by four such runs; the fourth run ends where the digits end, whatever comes
  next. It returns \<open>None\<close> exactly when the string has no marker followed by four such
  runs, as in \<open>bbox -1 2 3 4\<close>.
\<close>

theorem parse_bbox_leftmost_digit_runs:
  "(parse_bbox s = Inr (Some (x0, y0, x1, y1)) \<longrightarrow>
      0 \<le> x0 \<and> 0 \<le> y0 \<and> 0 \<le> x1 \<and> 0 \<le> y1 \<and>
      (\<exists>pre g1 g2 g3 g4 post.
         s = pre @ bbox_text g1 g2 g3 g4 @ post \<and>
         digit_run g1 \<and> digit_run g2 \<and> digit_run g3 \<and> digit_run g4 \<and>
         (post = [] \<or> \<not> is_decimal (hd post)) \<and>
         py_int g1 = Inr x0 \<and> py_int g2 = Inr y0 \<and> py_int g3 = Inr x1 \<and> py_int g4 = Inr y1 \<and>
         (\<forall>pre' h1 h2 h3 h4 post'.
            s = pre' @ bbox_text h1 h2 h3 h4 @ post' \<and>
            digit_run h1 \<and> digit_run h2 \<and> digit_run h3 \<and> digit_run h4 \<longrightarrow>
            length pre \<le> length pre'))) \<and>
   (parse_bbox s = Inr None \<longleftrightarrow>
      \<not> (\<exists>pre g1 g2 g3 g4 post.
           s = pre @ bbox_text g1 g2 g3 g4 @ post \<and>
           digit_run g1 \<and> digit_run g2 \<and> digit_run g3 \<and> digit_run g4)) \<and>
   parse_bbox ''bbox -1 2 3 4'' = Inr None \<and>
   parse_bbox ''bbox 1 2 3 4x'' = Inr (Some (1, 2, 3, 4))"
proof (intro conjI impI)
  assume box: "parse_bbox s = Inr (Some (x0, y0, x1, y1))"
  with parse_bbox_cases [of s] obtain g1 g2 g3 g4 where
    found: "re_search match_bbox s = Some (g1, g2, g3, g4)" and
    ints: "py_int g1 = Inr x0" "py_int g2 = Inr y0" "py_int g3 = Inr x1" "py_int g4 = Inr y1"
    by auto
  from re_search_leftmost [OF found] obtain pre post0 where
    s: "s = pre @ post0" and m: "match_bbox post0 = Some (g1, g2, g3, g4)" and
    left: "\<And>pre' post'. s = pre' @ post' \<Longrightarrow> length pre' < length pre \<Longrightarrow> match_bbox post' = None"
    by blast
  from match_bbox_runs [OF m] obtain post where
    post0: "post0 = bbox_text g1 g2 g3 g4 @ post" and
    runs: "digit_run g1" "digit_run g2" "digit_run g3" "digit_run g4" and
    stop: "post = [] \<or> \<not> is_decimal (hd post)"
    by blast
  from runs ints show "0 \<le> x0" "0 \<le> y0" "0 \<le> x1" "0 \<le> y1"
    using py_int_decimal_nonneg unfolding digit_run_def by blast+
  have first: "length pre \<le> length pre'"
    if "s = pre' @ bbox_text h1 h2 h3 h4 @ post' \<and>
        digit_run h1 \<and> digit_run h2 \<and> digit_run h3 \<and> digit_run h4" for pre' h1 h2 h3 h4 post'
  proof (rule ccontr)
    assume "\<not> length pre \<le> length pre'"
    then have "length pre' < length pre" by simp
    with that left [of pre' "bbox_text h1 h2 h3 h4 @ post'"]
    have "match_bbox (bbox_text h1 h2 h3 h4 @ post') = None" by blast
    with that match_bbox_text [of h1 h2 h3 h4 post'] show False by simp
  qed
  from s post0 runs stop ints first
  show "\<exists>pre g1 g2 g3 g4 post.
         s = pre @ bbox_text g1 g2 g3 g4 @ post \<and>
         digit_run g1 \<and> digit_run g2 \<and> digit_run g3 \<and> digit_run g4 \<and>
         (post = [] \<or> \<not> is_decimal (hd post)) \<and>
         py_int g1 = Inr x0 \<and> py_int g2 = Inr y0 \<and> py_int g3 = Inr x1 \<and> py_int g4 = Inr y1 \<and>
         (\<forall>pre' h1 h2 h3 h4 post'.
            s = pre' @ bbox_text h1 h2 h3 h4 @ post' \<and>
            digit_run h1 \<and> digit_run h2 \<and> digit_run h3 \<and> digit_run h4 \<longrightarrow>
            length pre \<le> length pre')"
    by blast
next
  show "parse_bbox s = Inr None \<longleftrightarrow>
      \<not> (\<exists>pre g1 g2 g3 g4 post.
           s = pre @ bbox_text g1 g2 g3 g4 @ post \<and>
           digit_run g1 \<and> digit_run g2 \<and> digit_run g3 \<and> digit_run g4)"
  proof
    assume none: "parse_bbox s = Inr None"
    with parse_bbox_cases [of s] have nomatch: "re_search match_bbox s = None" by auto
    show "\<not> (\<exists>pre g1 g2 g3 g4 post.
           s = pre @ bbox_text g1 g2 g3 g4 @ post \<and>
           digit_run g1 \<and> digit_run g2 \<and> digit_run g3 \<and> digit_run g4)"
    proof
      assume "\<exists>pre g1 g2 g3 g4 post.
           s = pre @ bbox_text g1 g2 g3 g4 @ post \<and>
           digit_run g1 \<and> digit_run g2 \<and> digit_run g3 \<and> digit_run g4"
      then obtain pre g1 g2 g3 g4 post where
        s: "s = pre @ bbox_text g1 g2 g3 g4 @ post" and
        runs: "digit_run g1" "digit_run g2" "digit_run g3" "digit_run g4"
        by blast
      from re_search_None [OF nomatch s] match_bbox_text [OF runs, of post]
      show False by simp
    qed
  next
    assume no: "\<not> (\<exists>pre g1 g2 g3 g4 post.
           s = pre @ bbox_text g1 g2 g3 g4 @ post \<and>
           digit_run g1 \<and> digit_run g2 \<and> digit_run g3 \<and> digit_run g4)"
    have "re_search match_bbox s = None"
    proof (rule ccontr)
      assume "re_search match_bbox s \<noteq> None"
      then obtain g1 g2 g3 g4 where "re_search match_bbox s = Some (g1, g2, g3, g4)"
        by auto
      from re_search_Some [OF this] obtain pre post0 where
        "s = pre @ post0" "match_bbox post0 = Some (g1, g2, g3, g4)" by blast
      with match_bbox_runs [of post0 g1 g2 g3 g4] no show False by blast
    qed
    with parse_bbox_cases [of s] show "parse_bbox s = Inr None" by auto
  qed
next
  show "parse_bbox ''bbox -1 2 3 4'' = Inr None" by (simp add: re_defs char_class_defs)
  show "parse_bbox ''bbox 1 2 3 4x'' = Inr (Some (1, 2, 3, 4))" by (simp add: re_defs str_defs)
qed

theorem parse_bbox_leftmost_digit_runs_witness:
  "parse_bbox ''bbox 10 10 50 30; x_wconf 95'' = Inr (Some (10, 10, 50, 30)) \<and>
   (\<exists>pre g1 g2 g3 g4 post.
      ''bbox 10 10 50 30; x_wconf 95'' = pre @ bbox_text g1 g2 g3 g4 @ post \<and>
      digit_run g1 \<and> digit_run g2 \<and> digit_run g3 \<and> digit_run g4 \<and>
      py_int g1 = Inr 10 \<and> py_int g2 = Inr 10 \<and> py_int g3 = Inr 50 \<and> py_int g4 = Inr 30) \<and>
   parse_bbox ''bbox -1 2 3 4'' = Inr None \<and>
   \<not> (\<exists>pre g1 g2 g3 g4 post.
        ''bbox -1 2 3 4'' = pre @ bbox_text g1 g2 g3 g4 @ post \<and>
        digit_run g1 \<and> digit_run g2 \<and> digit_run g3 \<and> digit_run g4)"
proof -
  have v: "parse_bbox ''bbox 10 10 50 30; x_wconf 95'' = Inr (Some (10, 10, 50, 30))"
    by (simp add: re_defs str_defs)
  have n: "parse_bbox ''bbox -1 2 3 4'' = Inr None"
    by (simp add: re_defs char_class_defs)
  from parse_bbox_leftmost_digit_runs [of "''bbox 10 10 50 30; x_wconf 95''" 10 10 50 30] v
  have a: "\<exists>pre g1 g2 g3 g4 post.
      ''bbox 10 10 50 30; x_wconf 95'' = pre @ bbox_text g1 g2 g3 g4 @ post \<and>
      digit_run g1 \<and> digit_run g2 \<and> digit_run g3 \<and> digit_run g4 \<and>
      py_int g1 = Inr 10 \<and> py_int g2 = Inr 10 \<and> py_int g3 = Inr 50 \<and> py_int g4 = Inr 30"
    by blast
  from parse_bbox_leftmost_digit_runs [of "''bbox -1 2 3 4''"] n
  have b: "\<not> (\<exists>pre g1 g2 g3 g4 post.
        ''bbox -1 2 3 4'' = pre @ bbox_text g1 g2 g3 g4 @ post \<and>
        digit_run g1 \<and> digit_run g2 \<and> digit_run g3 \<and> digit_run g4)"
    by blast
  from v a n b show ?thesis by (intro conjI)
qed

subsection \<open>Artifact paths\<close>

lemma py_replace_Nil: "old \<noteq> [] \<Longrightarrow> py_replace old new [] = []"
  by (simp add: py_replace.simps)

lemma py_replace_skip:
  "old \<noteq> [] \<Longrightarrow> \<not> prefix old (c # s) \<Longrightarrow> py_replace old new (c # s) = c # py_replace old new s"
proof -
  assume old: "old \<noteq> []" and np: "\<not> prefix old (c # s)"
  have "take (length old) (c # s) \<noteq> old"
  proof
    assume "take (length old) (c # s) = old"
    then have "prefix old (c # s)" by (metis take_is_prefix)
    with np show False by contradiction
  qed
  with old show ?thesis
    by (subst py_replace.simps) simp
qed

lemma py_replace_hit:
  "old \<noteq> [] \<Longrightarrow> py_replace old new (old @ s) = new @ py_replace old new s"
  by (subst py_replace.simps) simp

lemma not_sublist_Cons:
  "\<not> sublist xs (c # s) \<Longrightarrow> \<not> prefix xs (c # s) \<and> \<not> sublist xs s"
  by (auto simp: sublist_Cons_right)

lemma py_replace_absent:
  "\<not> sublist ''.jp2'' s \<Longrightarrow> py_replace ''.jp2'' ''.png'' s = s"
proof (induction s)
  case Nil
  show ?case by (simp add: py_replace_Nil)
next
  case (Cons c s)
  from not_sublist_Cons [OF Cons.prems] Cons.IH show ?case
    by (simp add: py_replace_skip)
qed

lemma jp2_no_straddle:
  assumes "prefix ''.jp2'' (c # s @ ''.jp2'')"
  shows "prefix ''.jp2'' (c # s)"
proof -
  from assms have c: "c = CHR ''.''" and rest: "prefix ''jp2'' (s @ ''.jp2'')"
    by (auto simp: prefix_Cons)
  show ?thesis
  proof (cases s)
    case Nil
    with rest show ?thesis by simp
  next
    case s1: (Cons a s')
    show ?thesis
    proof (cases s')
      case Nil
      with rest s1 show ?thesis by simp
    next
      case s2: (Cons b s'')
      show ?thesis
      proof (cases s'')
        case Nil
        with rest s1 s2 show ?thesis by simp
      next
        case (Cons d s''')
        with rest s1 s2 c show ?thesis by simp
      qed
    qed
  qed
qed

lemma py_replace_stem:
  "\<not> sublist ''.jp2'' stem \<Longrightarrow> py_replace ''.jp2'' ''.png'' (stem @ ''.jp2'') = stem @ ''.png''"
proof (induction stem)
  case Nil
  have "py_replace ''.jp2'' ''.png'' (''.jp2'' @ []) = ''.png'' @ py_replace ''.jp2'' ''.png'' []"
    by (rule py_replace_hit) simp
  then show ?case by (simp add: py_replace_Nil)
next
  case (Cons c stem)
  from not_sublist_Cons [OF Cons.prems] have np: "\<not> prefix ''.jp2'' (c # stem)"
    and ns: "\<not> sublist ''.jp2'' stem" by blast+
  from np jp2_no_straddle [of c stem] have "\<not> prefix ''.jp2'' (c # stem @ ''.jp2'')"
    by blast
  then have "py_replace ''.jp2'' ''.png'' (c # stem @ ''.jp2'')
      = c # py_replace ''.jp2'' ''.png'' (stem @ ''.jp2'')"
    by (intro py_replace_skip) simp_all
  with Cons.IH [OF ns] show ?case by simp
qed

lemma path_str_snoc: "p \<noteq> [] \<Longrightarrow> path_str (p @ [x]) = path_str p @ ''/'' @ x"
  by (induction p rule: path_str.induct) auto

lemma path_str_artifact:
  "output_dir \<noteq> [] \<Longrightarrow>
     path_str (artifact_path output_dir number book_name image_name) =
       path_str output_dir @ ''/'' @ py_str number @ ''/'' @ artifact_name number book_name image_name"
proof -
  assume ne: "output_dir \<noteq> []"
  have "path_str ((output_dir @ [py_str number]) @ [artifact_name number book_name image_name])
      = path_str (output_dir @ [py_str number]) @ ''/'' @ artifact_name number book_name image_name"
    by (rule path_str_snoc) simp
  also have "path_str (output_dir @ [py_str number]) = path_str output_dir @ ''/'' @ py_str number"
    using ne by (rule path_str_snoc)
  finally show ?thesis by (simp add: artifact_path_def)
qed

lemmas path_defs = artifact_path_def artifact_name_def py_str_def digits_of_nat.simps
  py_replace.simps

text \<open>
  Claim C4 says that, whatever the extension of the raster file name, the artifact's file
  name ends in the raster name with its extension replaced by \<open>.png\<close>. For a raster
  \<open>p1.tif\<close> the path computed keeps the extension \<open>.tif\<close>.
\<close>

theorem artifact_path_keeps_other_extension:
  "path_str (artifact_path [''data'', ''numbers''] 12 ''book1'' ''p1.tif'')
     = ''data/numbers/12/12_book1_p1.tif'' \<and>
   path_str (artifact_path [''data'', ''numbers''] 12 ''book1'' ''p1.tif'')
     \<noteq> ''data/numbers/12/12_book1_p1.png''"
  by (simp add: path_defs)

text \<open>
  Claim C4, amended. The artifact path is the output root, then the value, then the file
  name made of the value, the document name and the raster name in which \<open>.jp2\<close> is
  replaced by \<open>.png\<close>, joined by underscores. For a raster name \<open>stem.jp2\<close> whose stem does
  not contain \<open>.jp2\<close> the last part is \<open>stem.png\<close>; a raster name that does not contain
  \<open>.jp2\<close> is used as it is.
\<close>

theorem artifact_path_replaces_jp2:
  "artifact_path output_dir number book_name image_name =
     output_dir @ [py_str number,
       py_str number @ ''_'' @ book_name @ ''_'' @ py_replace ''.jp2'' ''.png'' image_name] \<and>
   (output_dir \<noteq> [] \<longrightarrow>
      path_str (artifact_path output_dir number book_name image_name) =
        path_str output_dir @ ''/'' @ py_str number @ ''/'' @
          py_str number @ ''_'' @ book_name @ ''_'' @ py_replace ''.jp2'' ''.png'' image_name) \<and>
   (\<not> sublist ''.jp2'' stem \<longrightarrow>
      artifact_path output_dir number book_name (stem @ ''.jp2'') =
        output_dir @ [py_str number, py_str number @ ''_'' @ book_name @ ''_'' @ stem @ ''.png'']) \<and>
   (\<not> sublist ''.jp2'' image_name \<longrightarrow>
      artifact_path output_dir number book_name image_name =
        output_dir @ [py_str number, py_str number @ ''_'' @ book_name @ ''_'' @ image_name])"
proof (intro conjI impI)
  show "artifact_path output_dir number book_name image_name =
     output_dir @ [py_str number,
       py_str number @ ''_'' @ book_name @ ''_'' @ py_replace ''.jp2'' ''.png'' image_name]"
    by (simp add: artifact_path_def artifact_name_def)
  show "path_str (artifact_path output_dir number book_name image_name) =
        path_str output_dir @ ''/'' @ py_str number @ ''/'' @
          py_str number @ ''_'' @ book_name @ ''_'' @ py_replace ''.jp2'' ''.png'' image_name"
    if "output_dir \<noteq> []"
    using path_str_artifact [OF that] by (simp add: artifact_name_def)
  show "artifact_path output_dir number book_name (stem @ ''.jp2'') =
        output_dir @ [py_str number, py_str number @ ''_'' @ book_name @ ''_'' @ stem @ ''.png'']"
    if "\<not> sublist ''.jp2'' stem"
    using py_replace_stem [OF that] by (simp add: artifact_path_def artifact_name_def)
  show "artifact_path output_dir number book_name image_name =
        output_dir @ [py_str number, py_str number @ ''_'' @ book_name @ ''_'' @ image_name]"
    if "\<not> sublist ''.jp2'' image_name"
    using py_replace_absent [OF that] by (simp add: artifact_path_def artifact_name_def)
qed

lemma no_jp2_examples: "\<not> sublist ''.jp2'' ''p1''" "\<not> sublist ''.jp2'' ''p1.tif''"
  by (simp_all add: sublist_Cons_right prefix_Cons)

theorem artifact_path_replaces_jp2_witness:
  "[''data'', ''numbers''] \<noteq> ([] :: path) \<and> \<not> sublist ''.jp2'' ''p1'' \<and>
   \<not> sublist ''.jp2'' ''p1.tif'' \<and>
   path_str (artifact_path [''data'', ''numbers''] 12 ''book1'' ''p1.jp2'')
     = ''data/numbers/12/12_book1_p1.png'' \<and>
   artifact_path [''data'', ''numbers''] 12 ''book1'' (''p1'' @ ''.jp2'')
     = [''data'', ''numbers'', ''12'', ''12_book1_p1.png''] \<and>
   artifact_path [''data'', ''numbers''] 12 ''book1'' ''p1.tif''
     = [''data'', ''numbers'', ''12'', ''12_book1_p1.tif'']"
proof -
  have s12: "py_str 12 = ''12''" by (simp add: py_str_def digits_of_nat.simps)
  have r: "py_replace ''.jp2'' ''.png'' ''p1.jp2'' = ''p1.png''" by (simp add: py_replace.simps)
  have ne: "[''data'', ''numbers''] \<noteq> ([] :: path)" by simp
  note jp2 = artifact_path_replaces_jp2 [of "[''data'', ''numbers'']" 12 "''book1''" "''p1.jp2''" "''p1''"]
  note tif = artifact_path_replaces_jp2 [of "[''data'', ''numbers'']" 12 "''book1''" "''p1.tif''" "''p1''"]
  from jp2 ne have "path_str (artifact_path [''data'', ''numbers''] 12 ''book1'' ''p1.jp2'') =
        path_str [''data'', ''numbers''] @ ''/'' @ py_str 12 @ ''/'' @
          py_str 12 @ ''_'' @ ''book1'' @ ''_'' @ py_replace ''.jp2'' ''.png'' ''p1.jp2''"
    by blast
  then have a: "path_str (artifact_path [''data'', ''numbers''] 12 ''book1'' ''p1.jp2'')
     = ''data/numbers/12/12_book1_p1.png''"
    by (simp add: s12 r)
  from jp2 no_jp2_examples(1) have "artifact_path [''data'', ''numbers''] 12 ''book1'' (''p1'' @ ''.jp2'') =
        [''data'', ''numbers''] @ [py_str 12, py_str 12 @ ''_'' @ ''book1'' @ ''_'' @ ''p1'' @ ''.png'']"
    by blast
  then have b: "artifact_path [''data'', ''numbers''] 12 ''book1'' (''p1'' @ ''.jp2'')
     = [''data'', ''numbers'', ''12'', ''12_book1_p1.png'']"
    by (simp add: s12)
  from tif no_jp2_examples(2) have "artifact_path [''data'', ''numbers''] 12 ''book1'' ''p1.tif'' =
        [''data'', ''numbers''] @ [py_str 12, py_str 12 @ ''_'' @ ''book1'' @ ''_'' @ ''p1.tif'']"
    by blast
  then have c: "artifact_path [''data'', ''numbers''] 12 ''book1'' ''p1.tif''
     = [''data'', ''numbers'', ''12'', ''12_book1_p1.tif'']"
    by (simp add: s12)
  from ne no_jp2_examples a b c show ?thesis by (intro conjI)
qed

text \<open>
  Claim C8 says that every artifact file name carries the pixel-height suffix
  \<open>_h<height>.png\<close> that the consumer parses. The artifact name computed for value 12 of
  raster \<open>p1.jp2\<close> in document \<open>book1\<close> is \<open>12_book1_p1.png\<close>, in which the consumer's
  pattern finds no height: \<open>get_image_for_number\<close> raises \<open>ValueError\<close> on it.
\<close>

theorem artifact_name_has_no_height:
  "artifact_name 12 ''book1'' ''p1.jp2'' = ''12_book1_p1.png'' \<and>
   height_from_name (artifact_name 12 ''book1'' ''p1.jp2'') = Inl ValueError"
  by (simp add: path_defs height_from_name_def match_height_def after_literal_def digits1_def
        is_decimal_def)

lemma height_needs_suffix:
  assumes "height_from_name name = Inr h"
  shows "\<exists>pre g nl. name = pre @ ''_h'' @ g @ ''.png'' @ nl \<and> g \<noteq> [] \<and> list_all is_decimal g \<and>
           (nl = [] \<or> nl = [CHR 0x0A]) \<and> py_int g = Inr h"
proof -
  from assms obtain g where s: "re_search match_height name = Some g" and h: "py_int g = Inr h"
    by (auto simp: height_from_name_def split: option.splits)
  from re_search_Some [OF s] obtain pre post where
    name: "name = pre @ post" and m: "match_height post = Some g" by blast
  from m obtain s0 r1 r2 where
    a0: "after_literal ''_h'' post = Some s0" and d: "digits1 s0 = Some (g, r1)" and
    a1: "after_literal ''.png'' r1 = Some r2" and e: "r2 = [] \<or> r2 = [CHR 0x0A]"
    unfolding match_height_def by (auto split: bind_splits if_splits)
  have "post = ''_h'' @ g @ ''.png'' @ r2"
    using after_literal_Some [OF a0] after_literal_Some [OF a1] digits1_Some [OF d] by simp
  with name digits1_Some [OF d] e h show ?thesis by auto
qed

subsection \<open>File system\<close>

lemma extends_refl: "extends w w"
  by (simp add: extends_def)

lemma extends_trans: "extends w w' \<Longrightarrow> extends w' w'' \<Longrightarrow> extends w w''"
  by (simp add: extends_def)

lemma print_disk: "disk (print m w) = disk w"
  by (simp add: print_def)

lemma print_exists: "path_exists (print m w) p = path_exists w p"
  by (simp add: path_exists_def print_def)

lemma print_is_dir: "is_dir (print m w) p = is_dir w p"
  by (simp add: is_dir_def print_def)

lemma extends_print: "extends w (print m w)"
  by (simp add: extends_def print_exists print_is_dir)

lemma mkdir_exist_ok_Inr:
  assumes "mkdir_exist_ok p w = Inr w1"
  shows "is_dir w1 p" "extends w w1" "stdout w1 = stdout w"
        "p \<noteq> [] \<Longrightarrow> disk w1 = (disk w)(p \<mapsto> Dir)"
  using assms
  by (auto simp: mkdir_exist_ok_def extends_def is_dir_def path_exists_def split: if_splits)

lemma write_file_Inr:
  assumes "write_file p c w = Inr w2"
  shows "path_exists w2 p" "extends w w2" "stdout w2 = stdout w" "disk w2 = (disk w)(p \<mapsto> File c)"
  using assms
  by (auto simp: write_file_def extends_def is_dir_def path_exists_def split: if_splits)

lemma mkdir_parents_Inr:
  assumes "mkdir_parents p w = Inr w1"
  shows "list_all (is_dir w1) (prefixes p)" "extends w w1" "stdout w1 = stdout w"
  using assms
  by (auto simp: mkdir_parents_def extends_def is_dir_def path_exists_def list_all_iff
           split: if_splits)

lemma mkdir_parents_again:
  assumes "list_all (is_dir w) (prefixes p)"
  shows "mkdir_parents p w = Inr w"
proof -
  from assms have dirs: "\<And>q. q \<in> set (prefixes p) \<Longrightarrow> q \<noteq> [] \<Longrightarrow> disk w q = Some Dir"
    by (auto simp: list_all_iff is_dir_def)
  then have "(\<lambda>q. if q \<noteq> [] \<and> q \<in> set (prefixes p) then Some Dir else disk w q) = disk w"
    by auto
  moreover have "\<not> (\<exists>q \<in> set (prefixes p). q \<noteq> [] \<and> disk w q \<noteq> None \<and> disk w q \<noteq> Some Dir)"
    using dirs by auto
  ultimately show ?thesis
    by (simp add: mkdir_parents_def)
qed

subsection \<open>The loops of the extractor\<close>

lemma save_number_skip:
  assumes "path_exists w (artifact_path output_dir (fst cand) book_name image_name)"
  shows "save_number lib output_dir book_name image_name img cand (cnt, skipped) w
           = (Inr (cnt, skipped + 1), w)"
  using assms
  by (cases cand) (simp add: save_number_def artifact_path_def)

lemma save_number_cases:
  assumes "save_number lib output_dir book_name image_name img (number, x0, y0, x1, y1) (cnt, skipped) w
             = (Inr (cnt', skipped'), w')"
  shows "(path_exists w (artifact_path output_dir number book_name image_name) \<and>
            cnt' = cnt \<and> skipped' = skipped + 1 \<and> w' = w) \<or>
         (\<not> path_exists w (artifact_path output_dir number book_name image_name) \<and>
            cnt' = cnt + 1 \<and> skipped' = skipped \<and> stdout w' = stdout w \<and>
            (\<exists>region png. image_crop lib img (x0, y0, x1, y1) = Inr region \<and>
               image_encode_png lib region = Inr png \<and>
               disk w' = (disk w)(output_dir @ [py_str number] \<mapsto> Dir,
                                  artifact_path output_dir number book_name image_name \<mapsto> File png)))"
proof (cases "path_exists w (artifact_path output_dir number book_name image_name)")
  case True
  from save_number_skip [of w output_dir "(number, x0, y0, x1, y1)" book_name image_name lib img cnt skipped]
    True assms
  show ?thesis by simp
next
  case False
  with assms obtain region w1 png w2 where
    crop: "image_crop lib img (x0, y0, x1, y1) = Inr region" and
    mk: "mkdir_exist_ok (output_dir @ [py_str number]) w = Inr w1" and
    enc: "image_encode_png lib region = Inr png" and
    wr: "write_file (artifact_path output_dir number book_name image_name) png w1 = Inr w2" and
    res: "cnt' = cnt + 1" "skipped' = skipped" "w' = w2"
    by (auto simp: save_number_def artifact_path_def Let_def split: sum.splits)
  have "disk w2 = (disk w)(output_dir @ [py_str number] \<mapsto> Dir,
                           artifact_path output_dir number book_name image_name \<mapsto> File png)"
    using mkdir_exist_ok_Inr(4) [OF mk] write_file_Inr(4) [OF wr] by simp
  moreover have "stdout w2 = stdout w"
    using mkdir_exist_ok_Inr(3) [OF mk] write_file_Inr(3) [OF wr] by simp
  ultimately show ?thesis
    using False crop enc res by blast
qed

lemma save_number_success:
  assumes "save_number lib output_dir book_name image_name img cand (cnt, skipped) w
             = (Inr (cnt', skipped'), w')"
  shows "cnt' + skipped' = cnt + skipped + 1"
    and "path_exists w' (artifact_path output_dir (fst cand) book_name image_name)"
    and "extends w w'" and "stdout w' = stdout w"
proof -
  obtain number x0 y0 x1 y1 where cand: "cand = (number, x0, y0, x1, y1)" by (cases cand)
  let ?p = "artifact_path output_dir number book_name image_name"
  have all: "cnt' + skipped' = cnt + skipped + 1 \<and> path_exists w' ?p \<and> extends w w' \<and>
             stdout w' = stdout w"
  proof (cases "path_exists w ?p")
    case True
    with save_number_skip [of w output_dir cand book_name image_name lib img cnt skipped] assms
    show ?thesis by (simp add: cand extends_refl)
  next
    case False
    with assms obtain region w1 png w2 where
      mk: "mkdir_exist_ok (output_dir @ [py_str number]) w = Inr w1" and
      wr: "write_file ?p png w1 = Inr w2" and
      res: "cnt' = cnt + 1" "skipped' = skipped" "w' = w2"
      by (auto simp: cand save_number_def artifact_path_def Let_def split: sum.splits)
    from mkdir_exist_ok_Inr(2,3) [OF mk] write_file_Inr(1,2,3) [OF wr] res
    show ?thesis by (auto intro: extends_trans)
  qed
  then show "cnt' + skipped' = cnt + skipped + 1"
    and "path_exists w' (artifact_path output_dir (fst cand) book_name image_name)"
    and "extends w w'" and "stdout w' = stdout w"
    by (simp_all add: cand)
qed

lemma saved_extends:
  "extends w w' \<Longrightarrow>
   list_all (\<lambda>cand. path_exists w (artifact_path output_dir (fst cand) book_name image_name)) numbers \<Longrightarrow>
   list_all (\<lambda>cand. path_exists w' (artifact_path output_dir (fst cand) book_name image_name)) numbers"
  by (auto simp: list_all_iff extends_def)

lemma save_numbers_success:
  assumes "save_numbers lib output_dir book_name image_name img numbers (cnt, skipped) w
             = (Inr (cnt', skipped'), w')"
  shows "cnt' + skipped' = cnt + skipped + length numbers \<and>
         list_all (\<lambda>cand. path_exists w' (artifact_path output_dir (fst cand) book_name image_name)) numbers \<and>
         extends w w' \<and> stdout w' = stdout w"
  using assms
proof (induction numbers arbitrary: cnt skipped w)
  case Nil
  then show ?case by (simp add: extends_refl)
next
  case (Cons cand numbers)
  from Cons.prems obtain c1 s1 w1 where
    one: "save_number lib output_dir book_name image_name img cand (cnt, skipped) w = (Inr (c1, s1), w1)"
    and rest: "save_numbers lib output_dir book_name image_name img numbers (c1, s1) w1
                 = (Inr (cnt', skipped'), w')"
    by (auto split: prod.splits sum.splits)
  note a = save_number_success [OF one]
  from Cons.IH [OF rest] have b: "cnt' + skipped' = c1 + s1 + length numbers"
    "list_all (\<lambda>cand. path_exists w' (artifact_path output_dir (fst cand) book_name image_name)) numbers"
    "extends w1 w'" "stdout w' = stdout w1"
    by blast+
  from a(2) b(3) have "path_exists w' (artifact_path output_dir (fst cand) book_name image_name)"
    by (simp add: extends_def)
  with a b show ?case
    by (auto intro: extends_trans)
qed

lemma save_numbers_skip:
  assumes "list_all (\<lambda>cand. path_exists w (artifact_path output_dir (fst cand) book_name image_name)) numbers"
  shows "save_numbers lib output_dir book_name image_name img numbers (cnt, skipped) w
           = (Inr (cnt, skipped + length numbers), w)"
  using assms
  by (induction numbers arbitrary: skipped) (simp_all add: save_number_skip)

lemma all_saved_extends:
  "extends w w' \<Longrightarrow> all_saved lib jp2_dir output_dir book_name d w \<Longrightarrow>
   all_saved lib jp2_dir output_dir book_name d w'"
  by (induction d) (auto split: option.splits sum.splits intro: saved_extends)

lemma all_saved_same_disk:
  "disk w' = disk w \<Longrightarrow> all_saved lib jp2_dir output_dir book_name d w' =
     all_saved lib jp2_dir output_dir book_name d w"
  by (induction d) (auto simp: path_exists_def split: option.splits sum.splits)

lemma save_images_success:
  assumes "save_images lib jp2_dir output_dir book_name d (cnt, skipped) w
             = (Inr (cnt', skipped'), w')"
  shows "cnt' + skipped' = cnt + skipped + handled jp2_dir d \<and>
         all_saved lib jp2_dir output_dir book_name d w' \<and>
         extends w w' \<and> stdout w' = stdout w @ warnings jp2_dir d"
  using assms
proof (induction d arbitrary: cnt skipped w)
  case Nil
  then show ?case by (simp add: extends_refl)
next
  case (Cons item items)
  obtain image_name numbers where item: "item = (image_name, numbers)" by (cases item)
  show ?case
  proof (cases "dir_entries jp2_dir image_name")
    case None
    with Cons.prems have rest: "save_images lib jp2_dir output_dir book_name items (cnt, skipped)
        (print (Warning_JP2_not_found (dir_path jp2_dir) image_name) w) = (Inr (cnt', skipped'), w')"
      by (simp add: item)
    from Cons.IH [OF rest] None show ?thesis
      by (auto simp: item print_def intro: extends_trans [OF extends_print [unfolded print_def]])
  next
    case (Some raster)
    with Cons.prems obtain img c1 s1 w1 where
      op: "image_open lib raster = Inr img" and
      inner: "save_numbers lib output_dir book_name image_name img numbers (cnt, skipped) w
                = (Inr (c1, s1), w1)" and
      rest: "save_images lib jp2_dir output_dir book_name items (c1, s1) w1
                = (Inr (cnt', skipped'), w')"
      by (auto simp: item split: sum.splits prod.splits)
    from save_numbers_success [OF inner] have a: "c1 + s1 = cnt + skipped + length numbers"
      "list_all (\<lambda>cand. path_exists w1 (artifact_path output_dir (fst cand) book_name image_name)) numbers"
      "extends w w1" "stdout w1 = stdout w"
      by blast+
    from Cons.IH [OF rest] have b: "cnt' + skipped' = c1 + s1 + handled jp2_dir items"
      "all_saved lib jp2_dir output_dir book_name items w'" "extends w1 w'"
      "stdout w' = stdout w1 @ warnings jp2_dir items"
      by blast+
    from saved_extends [OF b(3) a(2)] a b Some op show ?thesis
      by (auto simp: item intro: extends_trans)
  qed
qed

lemma save_images_skip:
  assumes "all_saved lib jp2_dir output_dir book_name d w"
  shows "save_images lib jp2_dir output_dir book_name d (cnt, skipped) w
           = (Inr (cnt, skipped + handled jp2_dir d), w\<lparr>stdout := stdout w @ warnings jp2_dir d\<rparr>)"
  using assms
proof (induction d arbitrary: skipped w)
  case Nil
  then show ?case by simp
next
  case (Cons item items)
  obtain image_name numbers where item: "item = (image_name, numbers)" by (cases item)
  show ?case
  proof (cases "dir_entries jp2_dir image_name")
    case None
    let ?w = "print (Warning_JP2_not_found (dir_path jp2_dir) image_name) w"
    from Cons.prems have "all_saved lib jp2_dir output_dir book_name items ?w"
      by (simp add: item all_saved_same_disk [OF print_disk])
    from Cons.IH [OF this] None show ?thesis
      by (simp add: item print_def)
  next
    case (Some raster)
    with Cons.prems obtain img where op: "image_open lib raster = Inr img"
      and here: "list_all (\<lambda>cand. path_exists w (artifact_path output_dir (fst cand) book_name image_name)) numbers"
      and rest: "all_saved lib jp2_dir output_dir book_name items w"
      by (auto simp: item split: sum.splits)
    from save_numbers_skip [OF here, of lib img cnt skipped]
      Cons.IH [OF rest, of "skipped + length numbers"] Some op
    show ?thesis
      by (simp add: item add.assoc)
  qed
qed

lemmas fs_defs = print_def path_exists_def is_dir_def mkdir_parents_def mkdir_exist_ok_def
  write_file_def example_pil_def example_jp2_dir_def example_world_def
lemmas extract_defs = extract_and_save_numbers_def save_number_def

lemma extract_twice_lemma:
  assumes "extract_and_save_numbers w2n lib hocr_file jp2_dir output_dir book_name w = (Inr created, w1)"
  shows "\<exists>skipped1 msgs. last (stdout w1) = Completed book_name created skipped1 \<and>
           extract_and_save_numbers w2n lib hocr_file jp2_dir output_dir book_name w1
             = (Inr 0, w1\<lparr>stdout := stdout w1 @ msgs\<rparr>) \<and>
           msgs \<noteq> [] \<and> last msgs = Completed book_name 0 (created + skipped1)"
proof -
  let ?w0 = "print (Processing book_name) w"
  from assms obtain wa html d s1 wb where
    mk: "mkdir_parents output_dir ?w0 = Inr wa" and
    hocr: "hocr_file = Inr html" and
    scan: "extract_numbers_from_hocr w2n html = Inr d" and
    save: "save_images lib jp2_dir output_dir book_name d (0, 0) wa = (Inr (created, s1), wb)" and
    w1: "w1 = print (Completed book_name created s1) wb"
    unfolding extract_and_save_numbers_def Let_def
    by (auto split: sum.splits prod.splits)
  from save_images_success [OF save] have
    total: "created + s1 = handled jp2_dir d" and
    saved: "all_saved lib jp2_dir output_dir book_name d wb" and
    ext: "extends wa wb"
    by simp_all
  let ?w0' = "print (Processing book_name) w1"
  have disk: "disk ?w0' = disk wb"
    by (simp add: w1 print_def)
  have dirs: "list_all (is_dir ?w0') (prefixes output_dir)"
    using mkdir_parents_Inr(1) [OF mk] ext
    by (auto simp: list_all_iff extends_def is_dir_def disk)
  have saved': "all_saved lib jp2_dir output_dir book_name d ?w0'"
    using saved by (simp add: all_saved_same_disk [OF disk])
  let ?msgs = "Processing book_name # warnings jp2_dir d @ [Completed book_name 0 (handled jp2_dir d)]"
  have "extract_and_save_numbers w2n lib hocr_file jp2_dir output_dir book_name w1
      = (Inr 0, print (Completed book_name 0 (handled jp2_dir d))
                  (?w0'\<lparr>stdout := stdout ?w0' @ warnings jp2_dir d\<rparr>))"
    unfolding extract_and_save_numbers_def Let_def
    by (simp add: mkdir_parents_again [OF dirs] hocr scan save_images_skip [OF saved', of 0 0])
  moreover have "print (Completed book_name 0 (handled jp2_dir d))
                  (?w0'\<lparr>stdout := stdout ?w0' @ warnings jp2_dir d\<rparr>)
      = w1\<lparr>stdout := stdout w1 @ ?msgs\<rparr>"
    by (simp add: print_def)
  moreover have "last (stdout w1) = Completed book_name created s1"
    by (simp add: w1 print_def)
  moreover have "last ?msgs = Completed book_name 0 (created + s1)"
    by (simp add: total)
  ultimately have "last (stdout w1) = Completed book_name created s1 \<and>
      extract_and_save_numbers w2n lib hocr_file jp2_dir output_dir book_name w1
        = (Inr 0, w1\<lparr>stdout := stdout w1 @ ?msgs\<rparr>) \<and>
      ?msgs \<noteq> [] \<and> last ?msgs = Completed book_name 0 (created + s1)"
    by simp
  then show ?thesis by (intro exI)
qed

text \<open>
  Claim C5. A candidate whose artifact path exists is counted as skipped and the world is
  left as it is: nothing is cropped or written. And when a run of
  \<open>extract_and_save_numbers\<close> has returned, a second run on the same document and rasters,
  started in the world the first one left, returns 0 created and leaves the file system as
  it is (it only prints); the number it reports as skipped is the number the first run
  created plus the number the first run skipped, which is every candidate whose raster is
  there.
\<close>

theorem extract_and_save_numbers_idempotent:
  assumes "extract_and_save_numbers w2n lib hocr_file jp2_dir output_dir book_name w = (Inr created, w1)"
  shows "(\<exists>skipped1 msgs. last (stdout w1) = Completed book_name created skipped1 \<and>
            extract_and_save_numbers w2n lib hocr_file jp2_dir output_dir book_name w1
              = (Inr 0, w1\<lparr>stdout := stdout w1 @ msgs\<rparr>) \<and>
            msgs \<noteq> [] \<and> last msgs = Completed book_name 0 (created + skipped1)) \<and>
         (\<forall>image_name img cand cnt skipped w0.
            path_exists w0 (artifact_path output_dir (fst cand) book_name image_name) \<longrightarrow>
            save_number lib output_dir book_name image_name img cand (cnt, skipped) w0
              = (Inr (cnt, skipped + 1), w0))"
proof -
  have twice: "\<exists>skipped1 msgs. last (stdout w1) = Completed book_name created skipped1 \<and>
            extract_and_save_numbers w2n lib hocr_file jp2_dir output_dir book_name w1
              = (Inr 0, w1\<lparr>stdout := stdout w1 @ msgs\<rparr>) \<and>
            msgs \<noteq> [] \<and> last msgs = Completed book_name 0 (created + skipped1)"
    using assms by (rule extract_twice_lemma)
  have skip: "\<forall>image_name img cand cnt skipped w0.
            path_exists w0 (artifact_path output_dir (fst cand) book_name image_name) \<longrightarrow>
            save_number lib output_dir book_name image_name img cand (cnt, skipped) w0
              = (Inr (cnt, skipped + 1), w0)"
    by (simp add: save_number_skip)
  from twice skip show ?thesis by (rule conjI)
qed

lemma example_first_run:
  "fst (extract_and_save_numbers example_w2n example_pil (Inr example_hocr) example_jp2_dir
          [''data'', ''numbers''] ''book1'' example_world) = Inr 1"
  by (simp add: extract_and_save_numbers_def example_scan save_number_def fs_defs path_defs)

theorem extract_and_save_numbers_idempotent_witness:
  "\<exists>w1. extract_and_save_numbers example_w2n example_pil (Inr example_hocr) example_jp2_dir
            [''data'', ''numbers''] ''book1'' example_world = (Inr 1, w1) \<and>
         (\<exists>skipped1 msgs. last (stdout w1) = Completed ''book1'' 1 skipped1 \<and>
            extract_and_save_numbers example_w2n example_pil (Inr example_hocr) example_jp2_dir
              [''data'', ''numbers''] ''book1'' w1 = (Inr 0, w1\<lparr>stdout := stdout w1 @ msgs\<rparr>) \<and>
            msgs \<noteq> [] \<and> last msgs = Completed ''book1'' 0 (1 + skipped1))"
proof -
  define w1 where "w1 = snd (extract_and_save_numbers example_w2n example_pil (Inr example_hocr)
      example_jp2_dir [''data'', ''numbers''] ''book1'' example_world)"
  have run: "extract_and_save_numbers example_w2n example_pil (Inr example_hocr) example_jp2_dir
            [''data'', ''numbers''] ''book1'' example_world = (Inr 1, w1)"
    using example_first_run by (simp add: w1_def prod_eq_iff)
  from extract_and_save_numbers_idempotent [OF run] run show ?thesis
    by blast
qed

text \<open>
  Claim C8, amended. When the loop body persists an artifact for a candidate, the file
  system changes at two paths only: the value's directory, and the artifact file, whose
  name is the value, the document name and the raster name with \<open>.jp2\<close> replaced by
  \<open>.png\<close>, joined by underscores. The name is made of nothing else: the candidate's box,
  and so the height of the crop, is not part of it.
\<close>

theorem artifact_file_name_without_height:
  assumes "save_number lib output_dir book_name image_name img (number, x0, y0, x1, y1) (cnt, skipped) w
             = (Inr (cnt', skipped'), w')"
    and "cnt' \<noteq> cnt"
  shows "\<exists>png. disk w' =
           (disk w)(output_dir @ [py_str number] \<mapsto> Dir,
                    output_dir @ [py_str number,
                      py_str number @ ''_'' @ book_name @ ''_'' @ py_replace ''.jp2'' ''.png'' image_name]
                      \<mapsto> File png)"
  using save_number_cases [OF assms(1)] assms(2)
  by (auto simp: artifact_path_def artifact_name_def)

lemma example_save_number:
  "save_number example_pil [''data'', ''numbers''] ''book1'' ''p1.jp2'' ''raster''
     (12, 10, 10, 50, 30) (0, 0) \<lparr>disk = [[''data''] \<mapsto> Dir, [''data'', ''numbers''] \<mapsto> Dir], stdout = []\<rparr>
   = (Inr (1, 0),
      \<lparr>disk = [[''data''] \<mapsto> Dir, [''data'', ''numbers''] \<mapsto> Dir, [''data'', ''numbers'', ''12''] \<mapsto> Dir,
               [''data'', ''numbers'', ''12'', ''12_book1_p1.png''] \<mapsto> File ''PNG of raster cropped''],
       stdout = []\<rparr>)"
  by (simp add: save_number_def fs_defs path_defs)

theorem artifact_file_name_without_height_witness:
  "save_number example_pil [''data'', ''numbers''] ''book1'' ''p1.jp2'' ''raster''
     (12, 10, 10, 50, 30) (0, 0) \<lparr>disk = [[''data''] \<mapsto> Dir, [''data'', ''numbers''] \<mapsto> Dir], stdout = []\<rparr>
   = (Inr (1, 0),
      \<lparr>disk = [[''data''] \<mapsto> Dir, [''data'', ''numbers''] \<mapsto> Dir, [''data'', ''numbers'', ''12''] \<mapsto> Dir,
               [''data'', ''numbers'', ''12'', ''12_book1_p1.png''] \<mapsto> File ''PNG of raster cropped''],
       stdout = []\<rparr>) \<and>
   (1::nat) \<noteq> 0 \<and>
   (\<exists>png. [[''data''] \<mapsto> Dir, [''data'', ''numbers''] \<mapsto> Dir, [''data'', ''numbers'', ''12''] \<mapsto> Dir,
               [''data'', ''numbers'', ''12'', ''12_book1_p1.png''] \<mapsto> File ''PNG of raster cropped'']
      = [[''data''] \<mapsto> Dir, [''data'', ''numbers''] \<mapsto> Dir]
          ([''data'', ''numbers''] @ [py_str 12] \<mapsto> Dir,
           [''data'', ''numbers''] @ [py_str 12,
              py_str 12 @ ''_'' @ ''book1'' @ ''_'' @ py_replace ''.jp2'' ''.png'' ''p1.jp2'']
              \<mapsto> File png))"
proof -
  have ne: "(1::nat) \<noteq> 0" by simp
  from artifact_file_name_without_height [OF example_save_number ne] example_save_number ne
  show ?thesis by simp
qed

text \<open>
  Claim C9. With more than one match of \<^verbatim>\<open>*_hocr.html\<close> or of \<^verbatim>\<open>*_jp2\<close>,
  \<open>process_book\<close> does what it does on the first match of each alone: it returns the same
  outcome and leaves the same world, file system and printed output alike, so the
  further matches are neither processed nor reported.
\<close>

theorem process_book_ignores_further_matches:
  "process_book w2n lib \<lparr>book_path = bp, hocr_files = h # hs, jp2_dirs = j # js\<rparr> output_dir w
     = process_book w2n lib \<lparr>book_path = bp, hocr_files = [h], jp2_dirs = [j]\<rparr> output_dir w \<and>
   process_book w2n lib \<lparr>book_path = bp, hocr_files = h # hs, jp2_dirs = j # js\<rparr> output_dir w
     = extract_and_save_numbers w2n lib h j output_dir (last_name bp) w"
  by (simp add: process_book_def)

theorem process_book_ignores_further_matches_witness:
  "process_book example_w2n example_pil example_book [''data'', ''numbers''] example_world
     = process_book example_w2n example_pil
         \<lparr>book_path = [''data'', ''raw'', ''book1''], hocr_files = [Inr example_hocr],
          jp2_dirs = [example_jp2_dir]\<rparr> [''data'', ''numbers''] example_world \<and>
   fst (process_book example_w2n example_pil example_book [''data'', ''numbers''] example_world) = Inr 1 \<and>
   stdout (snd (process_book example_w2n example_pil example_book [''data'', ''numbers''] example_world))
     = [Processing ''book1'', Completed ''book1'' 1 0]"
proof -
  have book: "example_book = \<lparr>book_path = [''data'', ''raw'', ''book1''],
      hocr_files = Inr example_hocr # [Inl OSError],
      jp2_dirs = example_jp2_dir #
        [\<lparr>dir_path = [''data'', ''raw'', ''book1'', ''old_jp2''], dir_entries = Map.empty\<rparr>]\<rparr>"
    by (simp add: example_book_def)
  note inst = process_book_ignores_further_matches [of example_w2n example_pil
      "[''data'', ''raw'', ''book1'']" "Inr example_hocr" "[Inl OSError]" example_jp2_dir
      "[\<lparr>dir_path = [''data'', ''raw'', ''book1'', ''old_jp2''], dir_entries = Map.empty\<rparr>]"
      "[''data'', ''numbers'']" example_world]
  have run: "extract_and_save_numbers example_w2n example_pil (Inr example_hocr) example_jp2_dir
      [''data'', ''numbers''] (last_name [''data'', ''raw'', ''book1'']) example_world
      = extract_and_save_numbers example_w2n example_pil (Inr example_hocr) example_jp2_dir
      [''data'', ''numbers''] ''book1'' example_world"
    by (simp add: last_name_def)
  have out: "stdout (snd (extract_and_save_numbers example_w2n example_pil (Inr example_hocr)
      example_jp2_dir [''data'', ''numbers''] ''book1'' example_world))
      = [Processing ''book1'', Completed ''book1'' 1 0]"
    by (simp add: extract_and_save_numbers_def example_scan save_number_def fs_defs path_defs)
  from inst have eq1: "process_book example_w2n example_pil
        \<lparr>book_path = [''data'', ''raw'', ''book1''], hocr_files = Inr example_hocr # [Inl OSError],
         jp2_dirs = example_jp2_dir #
           [\<lparr>dir_path = [''data'', ''raw'', ''book1'', ''old_jp2''], dir_entries = Map.empty\<rparr>]\<rparr>
        [''data'', ''numbers''] example_world
      = process_book example_w2n example_pil
         \<lparr>book_path = [''data'', ''raw'', ''book1''], hocr_files = [Inr example_hocr],
          jp2_dirs = [example_jp2_dir]\<rparr> [''data'', ''numbers''] example_world"
    and eq2: "process_book example_w2n example_pil
        \<lparr>book_path = [''data'', ''raw'', ''book1''], hocr_files = Inr example_hocr # [Inl OSError],
         jp2_dirs = example_jp2_dir #
           [\<lparr>dir_path = [''data'', ''raw'', ''book1'', ''old_jp2''], dir_entries = Map.empty\<rparr>]\<rparr>
        [''data'', ''numbers''] example_world
      = extract_and_save_numbers example_w2n example_pil (Inr example_hocr) example_jp2_dir
          [''data'', ''numbers''] (last_name [''data'', ''raw'', ''book1'']) example_world"
    by blast+
  have a: "process_book example_w2n example_pil example_book [''data'', ''numbers''] example_world
     = process_book example_w2n example_pil
         \<lparr>book_path = [''data'', ''raw'', ''book1''], hocr_files = [Inr example_hocr],
          jp2_dirs = [example_jp2_dir]\<rparr> [''data'', ''numbers''] example_world"
    unfolding book by (rule eq1)
  have b: "process_book example_w2n example_pil example_book [''data'', ''numbers''] example_world
     = extract_and_save_numbers example_w2n example_pil (Inr example_hocr) example_jp2_dir
          [''data'', ''numbers''] ''book1'' example_world"
    unfolding book by (simp only: eq2 run)
  have c: "fst (process_book example_w2n example_pil example_book [''data'', ''numbers''] example_world)
      = Inr 1"
    by (simp only: b example_first_run)
  have d: "stdout (snd (process_book example_w2n example_pil example_book [''data'', ''numbers'']
      example_world)) = [Processing ''book1'', Completed ''book1'' 1 0]"
    by (simp only: b out)
  from a c d show ?thesis by (intro conjI)
qed

subsection \<open>Fan-out\<close>

lemma collect_results_fst:
  "fst (collect_results futures results w)
     = results @ map (\<lambda>f. case snd f of Inl e \<Rightarrow> 0 | Inr n \<Rightarrow> n) futures"
  by (induction futures results w rule: collect_results.induct) simp_all

lemma collect_results_snd:
  "snd (collect_results futures results w) = w\<lparr>stdout := stdout w @ failure_reports futures\<rparr>"
  by (induction futures results w rule: collect_results.induct) (simp_all add: print_def)

lemma sum_list_created_counts:
  "sum_list (map (\<lambda>f. case snd f of Inl e \<Rightarrow> 0 | Inr n \<Rightarrow> n) futures)
     = sum_list (created_counts futures)"
  by (induction futures rule: created_counts.induct) simp_all

lemma run_pool_Cons:
  "run_pool w2n lib output_dir (book # books) w =
     ((book_path book, fst (process_book w2n lib book output_dir w)) #
        fst (run_pool w2n lib output_dir books (snd (process_book w2n lib book output_dir w))),
      snd (run_pool w2n lib output_dir books (snd (process_book w2n lib book output_dir w))))"
  by (simp split: prod.splits)

lemma run_pool_length: "length (fst (run_pool w2n lib output_dir books w)) = length books"
  by (induction books arbitrary: w) (simp_all add: run_pool_Cons del: run_pool.simps(2))

lemma run_pool_world:
  "snd (run_pool w2n lib output_dir books w) = world_after w2n lib output_dir books w"
  by (induction books arbitrary: w) (simp_all add: run_pool_Cons del: run_pool.simps(2))

lemma run_pool_nth:
  "i < length books \<Longrightarrow>
     fst (run_pool w2n lib output_dir books w) ! i =
       (book_path (books ! i),
        fst (process_book w2n lib (books ! i) output_dir
               (world_after w2n lib output_dir (take i books) w)))"
proof (induction books arbitrary: i w)
  case Nil
  then show ?case by simp
next
  case (Cons book books)
  show ?case
  proof (cases i)
    case 0
    then show ?thesis by (simp add: run_pool_Cons del: run_pool.simps(2))
  next
    case (Suc j)
    with Cons.prems have "j < length books" by simp
    from Cons.IH [OF this, of "snd (process_book w2n lib book output_dir w)"] Suc
    show ?thesis by (simp add: run_pool_Cons del: run_pool.simps(2))
  qed
qed

lemma main_result:
  "main w2n lib book_dirs w =
     (let pool = run_pool w2n lib [''data'', ''numbers''] book_dirs
                   (print (Found_books (length book_dirs)) w);
          total = sum_list (created_counts (fst pool))
      in (total,
          (snd pool)\<lparr>stdout := stdout (snd pool) @ failure_reports (fst pool) @
                                  [Total_numbers_extracted total]\<rparr>))"
proof -
  obtain futures w1 where pool: "run_pool w2n lib [''data'', ''numbers''] book_dirs
      (print (Found_books (length book_dirs)) w) = (futures, w1)"
    by (cases "run_pool w2n lib [''data'', ''numbers''] book_dirs
      (print (Found_books (length book_dirs)) w)")
  obtain results w2 where coll: "collect_results futures [] w1 = (results, w2)"
    by (cases "collect_results futures [] w1")
  from collect_results_fst [of futures "[]" w1] coll
  have "results = map (\<lambda>f. case snd f of Inl e \<Rightarrow> 0 | Inr n \<Rightarrow> n) futures"
    by simp
  then have total: "sum_list results = sum_list (created_counts futures)"
    by (simp add: sum_list_created_counts)
  from collect_results_snd [of futures "[]" w1] coll
  have w2: "w2 = w1\<lparr>stdout := stdout w1 @ failure_reports futures\<rparr>"
    by simp
  have run: "main w2n lib book_dirs w
      = (sum_list results, print (Total_numbers_extracted (sum_list results)) w2)"
    by (simp add: main_def Let_def pool coll)
  show ?thesis
    unfolding Let_def pool by (simp add: run total w2 print_def)
qed

text \<open>
  Claim C6. A book directory without layout file, or without raster sub-directory, makes
  \<open>process_book\<close> return 0 without raising, with one line printed. Every book directory
  gets a future, and the future of each book holds what \<open>process_book\<close> does on that very
  book in the world the books before it have left, whether or not one of them raised: an
  exception stays in its own future. \<open>main\<close> then returns: its total is the sum of the
  counts of the futures that ended with a result, so a future that ended with an exception
  adds nothing, and what it prints after the workers is one report for each such future
  and the total.
\<close>

theorem fan_out_survives_failures:
  "length (fst (run_pool w2n lib output_dir book_dirs w0)) = length book_dirs \<and>
   (\<forall>i. i < length book_dirs \<longrightarrow>
      fst (run_pool w2n lib output_dir book_dirs w0) ! i =
        (book_path (book_dirs ! i),
         fst (process_book w2n lib (book_dirs ! i) output_dir
                (world_after w2n lib output_dir (take i book_dirs) w0)))) \<and>
   snd (run_pool w2n lib output_dir book_dirs w0) = world_after w2n lib output_dir book_dirs w0 \<and>
   main w2n lib book_dirs w =
     (let pool = run_pool w2n lib [''data'', ''numbers''] book_dirs
                   (print (Found_books (length book_dirs)) w);
          total = sum_list (created_counts (fst pool))
      in (total,
          (snd pool)\<lparr>stdout := stdout (snd pool) @ failure_reports (fst pool) @
                                  [Total_numbers_extracted total]\<rparr>)) \<and>
   created_counts ((bp, Inl e) # futures) = created_counts futures \<and>
   created_counts ((bp, Inr n) # futures) = n # created_counts futures \<and>
   failure_reports ((bp, Inl e) # futures) = Error_processing bp e # failure_reports futures \<and>
   failure_reports ((bp, Inr n) # futures) = failure_reports futures \<and>
   (hocr_files book = [] \<longrightarrow>
      process_book w2n lib book output_dir w0
        = (Inr 0, print (No_hOCR_file_found (book_path book)) w0)) \<and>
   (hocr_files book \<noteq> [] \<and> jp2_dirs book = [] \<longrightarrow>
      process_book w2n lib book output_dir w0
        = (Inr 0, print (No_JP2_directory_found (book_path book)) w0))"
proof (intro conjI impI allI)
  show "length (fst (run_pool w2n lib output_dir book_dirs w0)) = length book_dirs"
    by (rule run_pool_length)
  show "fst (run_pool w2n lib output_dir book_dirs w0) ! i =
        (book_path (book_dirs ! i),
         fst (process_book w2n lib (book_dirs ! i) output_dir
                (world_after w2n lib output_dir (take i book_dirs) w0)))"
    if "i < length book_dirs" for i
    using that by (rule run_pool_nth)
  show "snd (run_pool w2n lib output_dir book_dirs w0) = world_after w2n lib output_dir book_dirs w0"
    by (rule run_pool_world)
  show "main w2n lib book_dirs w =
     (let pool = run_pool w2n lib [''data'', ''numbers''] book_dirs
                   (print (Found_books (length book_dirs)) w);
          total = sum_list (created_counts (fst pool))
      in (total,
          (snd pool)\<lparr>stdout := stdout (snd pool) @ failure_reports (fst pool) @
                                  [Total_numbers_extracted total]\<rparr>))"
    by (rule main_result)
  show "created_counts ((bp, Inl e) # futures) = created_counts futures" by simp
  show "created_counts ((bp, Inr n) # futures) = n # created_counts futures" by simp
  show "failure_reports ((bp, Inl e) # futures) = Error_processing bp e # failure_reports futures"
    by simp
  show "failure_reports ((bp, Inr n) # futures) = failure_reports futures" by simp
  show "process_book w2n lib book output_dir w0
        = (Inr 0, print (No_hOCR_file_found (book_path book)) w0)"
    if "hocr_files book = []"
    using that by (simp add: process_book_def)
  show "process_book w2n lib book output_dir w0
        = (Inr 0, print (No_JP2_directory_found (book_path book)) w0)"
    if "hocr_files book \<noteq> [] \<and> jp2_dirs book = []"
    using that by (auto simp: process_book_def split: list.splits)
qed

lemma footnote_scan: "extract_numbers_from_hocr w2n footnote_hocr = Inl ValueError"
  by (simp add: footnote_hocr_def quoted_def extract_numbers_from_hocr_def scan_word_def
        extract_number_from_text_def re_defs str_defs)

lemma example_pool:
  "fst (run_pool example_w2n example_pil [''data'', ''numbers''] example_books
      (print (Found_books (length example_books)) example_world))
    = [([''data'', ''raw'', ''book3''], Inl ValueError),
       ([''data'', ''raw'', ''book1''], Inr 1),
       ([''data'', ''raw'', ''book2''], Inr 0)]"
  "stdout (snd (run_pool example_w2n example_pil [''data'', ''numbers''] example_books
      (print (Found_books (length example_books)) example_world)))
    = [Found_books 3, Processing ''book3'', Processing ''book1'', Completed ''book1'' 1 0,
       No_hOCR_file_found [''data'', ''raw'', ''book2'']]"
  by (simp_all add: example_books_def process_book_def example_book_def last_name_def
        extract_and_save_numbers_def example_scan footnote_scan save_number_def fs_defs path_defs
        Let_def)

theorem fan_out_survives_failures_witness:
  "fst (run_pool example_w2n example_pil [''data'', ''numbers''] example_books
      (print (Found_books (length example_books)) example_world))
    = [([''data'', ''raw'', ''book3''], Inl ValueError),
       ([''data'', ''raw'', ''book1''], Inr 1),
       ([''data'', ''raw'', ''book2''], Inr 0)] \<and>
   fst (process_book example_w2n example_pil (example_books ! 1) [''data'', ''numbers'']
          (world_after example_w2n example_pil [''data'', ''numbers''] (take 1 example_books)
             (print (Found_books (length example_books)) example_world))) = Inr 1 \<and>
   hocr_files (example_books ! 2) = [] \<and>
   fst (main example_w2n example_pil example_books example_world) = 1 \<and>
   stdout (snd (main example_w2n example_pil example_books example_world))
    = [Found_books 3, Processing ''book3'', Processing ''book1'', Completed ''book1'' 1 0,
       No_hOCR_file_found [''data'', ''raw'', ''book2''],
       Error_processing [''data'', ''raw'', ''book3''] ValueError,
       Total_numbers_extracted 1]"
proof -
  let ?w0 = "print (Found_books (length example_books)) example_world"
  note inst = fan_out_survives_failures [of example_w2n example_pil "[''data'', ''numbers'']"
      example_books ?w0 example_world _ _ _ _ "example_books ! 2"]
  have len: "(1::nat) < length example_books"
    by (simp add: example_books_def)
  from inst len
  have "fst (run_pool example_w2n example_pil [''data'', ''numbers''] example_books ?w0) ! 1 =
        (book_path (example_books ! 1),
         fst (process_book example_w2n example_pil (example_books ! 1) [''data'', ''numbers'']
                (world_after example_w2n example_pil [''data'', ''numbers''] (take 1 example_books)
                   ?w0)))"
    by blast
  then have second: "fst (process_book example_w2n example_pil (example_books ! 1)
      [''data'', ''numbers'']
      (world_after example_w2n example_pil [''data'', ''numbers''] (take 1 example_books) ?w0))
      = Inr 1"
    by (simp add: example_pool(1))
  have empty: "hocr_files (example_books ! 2) = []"
    by (simp add: example_books_def)
  from inst have "main example_w2n example_pil example_books example_world =
     (let pool = run_pool example_w2n example_pil [''data'', ''numbers''] example_books ?w0;
          total = sum_list (created_counts (fst pool))
      in (total,
          (snd pool)\<lparr>stdout := stdout (snd pool) @ failure_reports (fst pool) @
                                  [Total_numbers_extracted total]\<rparr>))"
    by blast
  then have total: "fst (main example_w2n example_pil example_books example_world) = 1"
    and out: "stdout (snd (main example_w2n example_pil example_books example_world))
      = [Found_books 3, Processing ''book3'', Processing ''book1'', Completed ''book1'' 1 0,
         No_hOCR_file_found [''data'', ''raw'', ''book2''],
         Error_processing [''data'', ''raw'', ''book3''] ValueError,
         Total_numbers_extracted 1]"
    by (simp_all add: Let_def example_pool)
  from example_pool(1) second empty total out show ?thesis by (intro conjI)
qed


end
